theory Spec2Isabelle
  imports Main
begin

section \<open>Data model\<close>

text \<open>
  The canonical section shape of \<^verbatim>\<open>lcov-parse\<close> as the two source files use it.
  JavaScript numbers that hold line numbers and counters are modelled as unbounded
  integers (the parsers produce integers; the exact range of a double is not reached).
  A field that the code tests for absence (\<^verbatim>\<open>!section.lines\<close>,
  \<^verbatim>\<open>!coverage.branches\<close>) is an \<open>option\<close>. Any further field of a section
  (\<^verbatim>\<open>functions\<close>, ...) lives in the record's extension slot, so a function on
  \<open>'a Section_scheme\<close> handles sections with arbitrary other fields. The field
  \<^verbatim>\<open>file\<close> is called \<open>sfile\<close> (and the type \<open>Section\<close>), since \<open>file\<close> and
  \<open>section\<close> are keywords here.
\<close>

record line_detail =
  line :: int
  hit :: int

record branch_detail =
  bline :: int
  block :: int
  branch :: int
  taken :: int

record lines_summary =
  ldetails :: "line_detail list"
  lhit :: int
  lfound :: int

record branches_summary =
  bdetails :: "branch_detail list"
  bhit :: int
  bfound :: int

record Section =
  title :: string
  sfile :: string
  lines :: "lines_summary option"
  branches :: "branches_summary option"

text \<open>The working state of the renderer, \<^verbatim>\<open>interface CoverageSets\<close>.\<close>

record CoverageSets =
  full :: "int set"
  partial :: "int set"
  none :: "int set"

section \<open>The line and branch classifier (class Renderer)\<close>

text \<open>
  The body of the \<^verbatim>\<open>forEach\<close> callback of \<^verbatim>\<open>filterLineCoverage\<close>, on one
  line detail that passed the filter \<^verbatim>\<open>detail.line > 0\<close>.
\<close>

definition lineDetailStep :: "line_detail \<Rightarrow> CoverageSets \<Rightarrow> CoverageSets" where
  "lineDetailStep detail coverageSets =
     (let ln = line detail - 1 in
      if hit detail > 0 then
        (let cs1 = (if ln \<in> none coverageSets
                    then coverageSets\<lparr>none := none coverageSets - {ln}\<rparr>
                    else coverageSets)
         in cs1\<lparr>full := insert ln (full cs1)\<rparr>)
      else if ln \<notin> full coverageSets
        then coverageSets\<lparr>none := insert ln (none coverageSets)\<rparr>
        else coverageSets)"

text \<open>
  \<^verbatim>\<open>filterLineCoverage\<close>: a missing section (\<open>None\<close>) or a section without
  \<^verbatim>\<open>lines\<close> returns at once; otherwise the details with \<^verbatim>\<open>line > 0\<close> are
  visited in order.
\<close>

definition filterLineCoverage ::
    "'a Section_scheme option \<Rightarrow> CoverageSets \<Rightarrow> CoverageSets" where
  "filterLineCoverage sec coverageSets =
     (case sec of
        None \<Rightarrow> coverageSets
      | Some s \<Rightarrow>
          (case lines s of
             None \<Rightarrow> coverageSets
           | Some l \<Rightarrow>
               fold lineDetailStep (filter (\<lambda>detail. line detail > 0) (ldetails l))
                 coverageSets))"

text \<open>The body of the \<^verbatim>\<open>forEach\<close> callback of \<^verbatim>\<open>filterBranchCoverage\<close>.\<close>

definition branchDetailStep :: "branch_detail \<Rightarrow> CoverageSets \<Rightarrow> CoverageSets" where
  "branchDetailStep detail coverageSets =
     (let ln = bline detail - 1 in
      if ln \<in> full coverageSets
      then coverageSets\<lparr>full := full coverageSets - {ln},
                         partial := insert ln (partial coverageSets)\<rparr>
      else coverageSets)"

definition filterBranchCoverage ::
    "'a Section_scheme option \<Rightarrow> CoverageSets \<Rightarrow> CoverageSets" where
  "filterBranchCoverage sec coverageSets =
     (case sec of
        None \<Rightarrow> coverageSets
      | Some s \<Rightarrow>
          (case branches s of
             None \<Rightarrow> coverageSets
           | Some b \<Rightarrow>
               fold branchDetailStep
                 (filter (\<lambda>detail. taken detail = 0 \<and> bline detail > 0) (bdetails b))
                 coverageSets))"

text \<open>
  \<^verbatim>\<open>filterCoverage\<close>: for each section in order, the line pass and then the branch
  pass of that same section. \<open>sectionStep\<close> is the callback of
  \<^verbatim>\<open>sections.forEach\<close>.
\<close>

definition sectionStep :: "'a Section_scheme option \<Rightarrow> CoverageSets \<Rightarrow> CoverageSets" where
  "sectionStep sec coverageSets =
     filterBranchCoverage sec (filterLineCoverage sec coverageSets)"

definition filterCoverage ::
    "'a Section_scheme option list \<Rightarrow> CoverageSets \<Rightarrow> CoverageSets" where
  "filterCoverage sections coverageSets = fold sectionStep sections coverageSets"

text \<open>
  \<^verbatim>\<open>renderCoverage\<close> creates three empty sets for every editor and hands them to
  \<^verbatim>\<open>filterCoverage\<close>; \<open>classify\<close> is that call.
\<close>

definition emptySets :: CoverageSets where
  "emptySets = \<lparr>full = {}, partial = {}, none = {}\<rparr>"

definition classify :: "'a Section_scheme option list \<Rightarrow> CoverageSets" where
  "classify sections = filterCoverage sections emptySets"

section \<open>The section merger (class CoverageParser)\<close>

text \<open>
  Reading \<^verbatim>\<open>coverage.lines.details\<close> on a section without \<^verbatim>\<open>lines\<close> throws a
  \<^verbatim>\<open>TypeError\<close>; the merge functions return it as a value.
\<close>

datatype error = TypeError

text \<open>
  The variables the two loops of \<^verbatim>\<open>mergeLineCoverage\<close> update: the counters
  \<^verbatim>\<open>hit\<close> and \<^verbatim>\<open>found\<close>, the set \<^verbatim>\<open>seen\<close> and the array
  \<^verbatim>\<open>details\<close>.
\<close>

record lines_merge =
  mhit :: int
  mfound :: int
  mseen :: "int set"
  mdetails :: "line_detail list"

text \<open>
  The callback of \<^verbatim>\<open>existingCoverage.lines.details.map\<close>. The source increments
  \<^verbatim>\<open>line.hit\<close> in place and returns the same object. The model works on values: it
  agrees with the source whenever no detail object occurs twice in one details array,
  which holds for freshly parsed sections and is kept by the merge.
\<close>

definition existingLineStep :: "int set \<Rightarrow> line_detail \<Rightarrow> lines_merge \<Rightarrow> lines_merge" where
  "existingLineStep hits ln st =
     (let ln1 = (if line ln \<in> hits then ln\<lparr>hit := hit ln + 1\<rparr> else ln) in
      \<lparr>mhit = (if hit ln1 > 0 then mhit st + 1 else mhit st),
       mfound = mfound st + 1,
       mseen = insert (line ln) (mseen st),
       mdetails = mdetails st @ [ln1]\<rparr>)"

text \<open>The callback of the second loop, over the incoming details not seen before.\<close>

definition incomingLineStep :: "line_detail \<Rightarrow> lines_merge \<Rightarrow> lines_merge" where
  "incomingLineStep ln st =
     st\<lparr>mfound := mfound st + 1,
        mhit := (if hit ln > 0 then mhit st + 1 else mhit st),
        mdetails := mdetails st @ [ln]\<rparr>"

definition mergeLineCoverage ::
    "'a Section_scheme \<Rightarrow> 'b Section_scheme \<Rightarrow> error + lines_summary" where
  "mergeLineCoverage existingCoverage coverage =
     (case lines coverage of
        None \<Rightarrow> Inl TypeError
      | Some cl \<Rightarrow>
          (let hits = set (map line (filter (\<lambda>d. hit d > 0) (ldetails cl))) in
           case lines existingCoverage of
             None \<Rightarrow> Inl TypeError
           | Some el \<Rightarrow>
               (let st0 = \<lparr>mhit = 0, mfound = 0, mseen = {}, mdetails = []\<rparr>;
                    st1 = fold (existingLineStep hits) (ldetails el) st0;
                    st2 = fold incomingLineStep
                            (filter (\<lambda>d. line d \<notin> mseen st1) (ldetails cl)) st1
                in Inr \<lparr>ldetails = mdetails st2, lhit = mhit st2, lfound = mfound st2\<rparr>)))"

text \<open>
  \<^verbatim>\<open>getKey\<close> joins line, block and branch with \<^verbatim>\<open>":"\<close>. The decimal text of an
  integer has no colon, so on integers the joined string determines the triple and the
  triple the string; the model keeps the triple.
\<close>

definition getKey :: "branch_detail \<Rightarrow> int \<times> int \<times> int" where
  "getKey b = (bline b, block b, branch b)"

record branches_merge =
  bmhit :: int
  bmfound :: int
  bmseen :: "(int \<times> int \<times> int) set"
  bmdetails :: "branch_detail list"

definition existingBranchStep ::
    "(int \<times> int \<times> int) set \<Rightarrow> branch_detail \<Rightarrow> branches_merge \<Rightarrow> branches_merge" where
  "existingBranchStep takenKeys b st =
     (let key = getKey b;
          b1 = (if key \<in> takenKeys then b\<lparr>taken := taken b + 1\<rparr> else b) in
      \<lparr>bmhit = (if taken b1 > 0 then bmhit st + 1 else bmhit st),
       bmfound = bmfound st + 1,
       bmseen = insert key (bmseen st),
       bmdetails = bmdetails st @ [b1]\<rparr>)"

definition incomingBranchStep :: "branch_detail \<Rightarrow> branches_merge \<Rightarrow> branches_merge" where
  "incomingBranchStep b st =
     st\<lparr>bmfound := bmfound st + 1,
        bmhit := (if taken b > 0 then bmhit st + 1 else bmhit st),
        bmdetails := bmdetails st @ [b]\<rparr>"

definition mergeBranchCoverage ::
    "'a Section_scheme \<Rightarrow> 'b Section_scheme \<Rightarrow> branches_summary option" where
  "mergeBranchCoverage existingCoverage coverage =
     (case branches coverage of
        None \<Rightarrow> branches existingCoverage
      | Some cb \<Rightarrow>
          (case branches existingCoverage of
             None \<Rightarrow> Some cb
           | Some eb \<Rightarrow>
               (let takenKeys = set (map getKey (filter (\<lambda>d. taken d > 0) (bdetails cb)));
                    st0 = \<lparr>bmhit = 0, bmfound = 0, bmseen = {}, bmdetails = []\<rparr>;
                    st1 = fold (existingBranchStep takenKeys) (bdetails eb) st0;
                    st2 = fold incomingBranchStep
                            (filter (\<lambda>d. getKey d \<notin> bmseen st1) (bdetails cb)) st1
                in Some \<lparr>bdetails = bmdetails st2, bhit = bmhit st2,
                          bfound = bmfound st2\<rparr>)))"

text \<open>
  \<^verbatim>\<open>mergeSections\<close>: the spread \<^verbatim>\<open>...existingSection\<close> copies every field of the
  existing section; \<^verbatim>\<open>lines\<close> and \<^verbatim>\<open>branches\<close> are then replaced.
\<close>

definition mergeSections ::
    "'a Section_scheme \<Rightarrow> 'b Section_scheme \<Rightarrow> error + 'a Section_scheme" where
  "mergeSections existingSection sec =
     (case mergeLineCoverage existingSection sec of
        Inl e \<Rightarrow> Inl e
      | Inr l \<Rightarrow>
          Inr (existingSection\<lparr>lines := Some l,
                               branches := mergeBranchCoverage existingSection sec\<rparr>))"

section \<open>Aggregation of the parsed files (filesToSections)\<close>

text \<open>
  The key of a section in the map of coverages, \<^verbatim>\<open>[section.title, section.file].join("::")\<close>.
\<close>

definition sectionKey :: "'a Section_scheme \<Rightarrow> string" where
  "sectionKey sec = title sec @ ''::'' @ sfile sec"

text \<open>
  \<^verbatim>\<open>addToSectionsMap\<close>, the closure inside \<^verbatim>\<open>addSections\<close>. The map of coverages is
  a partial function from keys to sections. A \<^verbatim>\<open>TypeError\<close> of the merge leaves the
  map as it was and rejects the promise of this one call.
\<close>

definition addToSectionsMap ::
    "'a Section_scheme \<Rightarrow> (string \<rightharpoonup> 'a Section_scheme) \<Rightarrow>
     error + (string \<rightharpoonup> 'a Section_scheme)" where
  "addToSectionsMap sec coverages =
     (let key = sectionKey sec in
      case coverages key of
        None \<Rightarrow> Inr (coverages(key \<mapsto> sec))
      | Some existingSection \<Rightarrow>
          (case mergeSections existingSection sec of
             Inl e \<Rightarrow> Inl e
           | Inr mergedSection \<Rightarrow> Inr (coverages(key \<mapsto> mergedSection))))"

text \<open>
  \<^verbatim>\<open>addSections\<close> calls the closure on every section in order (\<^verbatim>\<open>data.map\<close>); the
  closure never suspends, so the calls run one after the other, and a call that throws
  does not stop the later ones. \<^verbatim>\<open>Promise.all\<close> then rejects with the first error, if
  there is one.
\<close>

definition addSectionsStep ::
    "'a Section_scheme \<Rightarrow> (string \<rightharpoonup> 'a Section_scheme) \<times> error option \<Rightarrow>
     (string \<rightharpoonup> 'a Section_scheme) \<times> error option" where
  "addSectionsStep sec st =
     (case addToSectionsMap sec (fst st) of
        Inl e \<Rightarrow> (fst st, (case snd st of None \<Rightarrow> Some e | Some e0 \<Rightarrow> Some e0))
      | Inr coverages \<Rightarrow> (coverages, snd st))"

definition addSections ::
    "(string \<rightharpoonup> 'a Section_scheme) \<Rightarrow> 'a Section_scheme list \<Rightarrow>
     error + (string \<rightharpoonup> 'a Section_scheme)" where
  "addSections coverages data =
     (let st = fold addSectionsStep data (coverages, None) in
      case snd st of
        None \<Rightarrow> Inr (fst st)
      | Some e \<Rightarrow> Inl e)"

text \<open>
  Modelled from the spec: the enumeration \<^verbatim>\<open>CoverageType\<close> of
  \<^verbatim>\<open>./coveragefile\<close> is not part of the source at hand. The spec names the formats
  LCOV, Cobertura, Clover and JaCoCo and an unrecognized one; the \<^verbatim>\<open>switch\<close> of
  \<^verbatim>\<open>filesToSections\<close> names the first four and sends everything else to
  \<^verbatim>\<open>default\<close>, here \<open>NONE\<close>.
\<close>

datatype CoverageType = CLOVER | JACOCO | COBERTURA | LCOV | NONE

text \<open>
  A value that a parser hands over as its error, or throws. What the extractors do
  with it depends on two things only: whether it is truthy (\<^verbatim>\<open>if (err)\<close>) and whether
  it is an object, so that \<^verbatim>\<open>err.message = ...\<close> succeeds. The module is strict code:
  assigning to a property of a primitive, of \<^verbatim>\<open>null\<close> or of \<^verbatim>\<open>undefined\<close> throws a
  \<^verbatim>\<open>TypeError\<close>. \<open>ErrorObject\<close> is an \<^verbatim>\<open>Error\<close> with its message, \<open>JsString\<close>
  a string (truthy unless empty; the package \<^verbatim>\<open>lcov-parse\<close> reports a failure with
  the string \<^verbatim>\<open>'Failed to parse string'\<close>), and \<open>JsNull\<close> stands for \<^verbatim>\<open>null\<close> and
  \<^verbatim>\<open>undefined\<close>.
\<close>

datatype js_value = ErrorObject string | JsString string | JsNull

definition truthy :: "js_value \<Rightarrow> bool" where
  "truthy v =
     (case v of ErrorObject msg \<Rightarrow> True | JsString str \<Rightarrow> str \<noteq> [] | JsNull \<Rightarrow> False)"

definition isObject :: "js_value \<Rightarrow> bool" where
  "isObject v =
     (case v of ErrorObject msg \<Rightarrow> True | JsString str \<Rightarrow> False | JsNull \<Rightarrow> False)"

text \<open>
  What an external parser does with a file's content. The Clover parser returns a
  promise: it resolves with sections, or it rejects (or throws) with some value. The
  other three take a callback \<^verbatim>\<open>(err, data)\<close>: they call it once with an error value
  and data, or throw before calling it. With a falsy \<^verbatim>\<open>err\<close> the data is an array of
  sections.
\<close>

datatype 's promise_outcome = Resolves "'s list" | Rejects js_value

datatype 's callback_outcome = CallsBack js_value "'s list" | Throws js_value

text \<open>
  A promise as \<^verbatim>\<open>filesToSections\<close> sees it when it awaits: fulfilled with a value,
  rejected with an error, or never settled.
\<close>

datatype 'a promise = Fulfilled 'a | Rejected error | Pending

text \<open>
  The collaborators of \<^verbatim>\<open>filesToSections\<close> that the source imports: the format
  detection (\<^verbatim>\<open>new CoverageFile(fileContent).type\<close>) and the four parsers. They are
  parameters of the model.
\<close>

record 's collaborators =
  coverageFileType :: "string \<Rightarrow> CoverageType"
  parseContentClover :: "string \<Rightarrow> 's promise_outcome"
  parseContentJacoco :: "string \<Rightarrow> 's callback_outcome"
  parseContentCobertura :: "string \<Rightarrow> 's callback_outcome"
  source :: "string \<Rightarrow> 's callback_outcome"

text \<open>
  The closure \<^verbatim>\<open>checkError\<close> of the three callback extractors. On a falsy value it
  does nothing. On a truthy object it sets the message, calls \<^verbatim>\<open>handleError\<close> and
  resolves the promise with \<^verbatim>\<open>[]\<close>. On a truthy primitive the assignment to
  \<^verbatim>\<open>err.message\<close> throws. \<^verbatim>\<open>handleError\<close> writes to the output channel of the host;
  no result depends on it, and the model leaves it out.
\<close>

datatype check_result = NoError | ResolvedEmpty | ThrewTypeError

definition checkError :: "js_value \<Rightarrow> check_result" where
  "checkError err =
     (if truthy err then (if isObject err then ResolvedEmpty else ThrewTypeError)
      else NoError)"

text \<open>
  \<^verbatim>\<open>xmlExtractClover\<close>: the \<^verbatim>\<open>catch\<close> assigns to \<^verbatim>\<open>error.message\<close> without a
  test, so a rejection with anything but an object makes the extractor's own promise
  reject with a \<^verbatim>\<open>TypeError\<close>.
\<close>

definition xmlExtractClover ::
    "'s collaborators \<Rightarrow> string \<Rightarrow> string \<Rightarrow> 's list promise" where
  "xmlExtractClover env coverageFilename xmlFile =
     (case parseContentClover env xmlFile of
        Resolves data \<Rightarrow> Fulfilled data
      | Rejects error \<Rightarrow> (if isObject error then Fulfilled [] else Rejected TypeError))"

text \<open>
  The three callback extractors. The callback is an \<^verbatim>\<open>async\<close> function: when
  \<^verbatim>\<open>checkError\<close> throws inside it, the callback's own promise rejects, nobody calls
  \<^verbatim>\<open>resolve\<close>, and the extractor's promise never settles. After \<^verbatim>\<open>checkError\<close> has
  resolved the promise with \<^verbatim>\<open>[]\<close>, the \<^verbatim>\<open>resolve(data)\<close> that follows has no effect.
  When the parser throws, the \<^verbatim>\<open>catch\<close> runs \<^verbatim>\<open>checkError\<close> inside the promise's
  executor: if that throws, the promise rejects; if the thrown value is falsy, nothing
  resolves the promise.
\<close>

definition xmlExtractJacoco ::
    "'s collaborators \<Rightarrow> string \<Rightarrow> string \<Rightarrow> 's list promise" where
  "xmlExtractJacoco env coverageFilename xmlFile =
     (case parseContentJacoco env xmlFile of
        CallsBack err data \<Rightarrow>
          (case checkError err of
             NoError \<Rightarrow> Fulfilled data
           | ResolvedEmpty \<Rightarrow> Fulfilled []
           | ThrewTypeError \<Rightarrow> Pending)
      | Throws error \<Rightarrow>
          (case checkError error of
             NoError \<Rightarrow> Pending
           | ResolvedEmpty \<Rightarrow> Fulfilled []
           | ThrewTypeError \<Rightarrow> Rejected TypeError))"

definition xmlExtractCobertura ::
    "'s collaborators \<Rightarrow> string \<Rightarrow> string \<Rightarrow> 's list promise" where
  "xmlExtractCobertura env coverageFilename xmlFile =
     (case parseContentCobertura env xmlFile of
        CallsBack err data \<Rightarrow>
          (case checkError err of
             NoError \<Rightarrow> Fulfilled data
           | ResolvedEmpty \<Rightarrow> Fulfilled []
           | ThrewTypeError \<Rightarrow> Pending)
      | Throws error \<Rightarrow>
          (case checkError error of
             NoError \<Rightarrow> Pending
           | ResolvedEmpty \<Rightarrow> Fulfilled []
           | ThrewTypeError \<Rightarrow> Rejected TypeError))"

definition lcovExtract ::
    "'s collaborators \<Rightarrow> string \<Rightarrow> string \<Rightarrow> 's list promise" where
  "lcovExtract env coverageFilename lcovFile =
     (case source env lcovFile of
        CallsBack err data \<Rightarrow>
          (case checkError err of
             NoError \<Rightarrow> Fulfilled data
           | ResolvedEmpty \<Rightarrow> Fulfilled []
           | ThrewTypeError \<Rightarrow> Pending)
      | Throws error \<Rightarrow>
          (case checkError error of
             NoError \<Rightarrow> Pending
           | ResolvedEmpty \<Rightarrow> Fulfilled []
           | ThrewTypeError \<Rightarrow> Rejected TypeError))"

text \<open>
  The body of the \<^verbatim>\<open>for\<close> loop of \<^verbatim>\<open>filesToSections\<close>: the promises pushed for
  one entry \<^verbatim>\<open>[fileName, fileContent]\<close>.
\<close>

definition parsePromisesOf ::
    "'s collaborators \<Rightarrow> string \<times> string \<Rightarrow> 's list promise list" where
  "parsePromisesOf env entry =
     (let fileName = fst entry; fileContent = snd entry in
      case coverageFileType env fileContent of
        CLOVER \<Rightarrow> [xmlExtractClover env fileName fileContent]
      | JACOCO \<Rightarrow> [xmlExtractJacoco env fileName fileContent]
      | COBERTURA \<Rightarrow> [xmlExtractCobertura env fileName fileContent]
      | LCOV \<Rightarrow> [lcovExtract env fileName fileContent]
      | NONE \<Rightarrow> [])"

text \<open>
  \<^verbatim>\<open>Promise.all\<close>: rejected as soon as one promise is rejected, otherwise never
  settled while one promise never settles, otherwise fulfilled with the values in the
  order of the promises.
\<close>

fun promiseAll :: "'a promise list \<Rightarrow> 'a list promise" where
  "promiseAll [] = Fulfilled []"
| "promiseAll (p # ps) =
     (case p of
        Rejected e \<Rightarrow> Rejected e
      | Pending \<Rightarrow>
          (case promiseAll ps of
             Rejected e \<Rightarrow> Rejected e
           | Fulfilled vs \<Rightarrow> Pending
           | Pending \<Rightarrow> Pending)
      | Fulfilled v \<Rightarrow>
          (case promiseAll ps of
             Rejected e \<Rightarrow> Rejected e
           | Fulfilled vs \<Rightarrow> Fulfilled (v # vs)
           | Pending \<Rightarrow> Pending))"

text \<open>
  \<^verbatim>\<open>filesToSections\<close>: the files are the entries of a \<^verbatim>\<open>Map\<close> in insertion order.
  The function awaits \<^verbatim>\<open>Promise.all(parsePromises)\<close>; once that is fulfilled,
  \<^verbatim>\<open>reduce\<close> concatenates the arrays and \<^verbatim>\<open>addSections\<close> fills a fresh map.
\<close>

definition filesToSections ::
    "'a Section_scheme collaborators \<Rightarrow> (string \<times> string) list \<Rightarrow>
     (string \<rightharpoonup> 'a Section_scheme) promise" where
  "filesToSections env files =
     (let parsePromises = concat (map (parsePromisesOf env) files) in
      case promiseAll parsePromises of
        Pending \<Rightarrow> Pending
      | Rejected e \<Rightarrow> Rejected e
      | Fulfilled results \<Rightarrow>
          (let flattenedSections = fold (\<lambda>val acc. acc @ val) results [] in
           case addSections Map.empty flattenedSections of
             Inl e \<Rightarrow> Rejected e
           | Inr coverages \<Rightarrow> Fulfilled coverages))"

section \<open>Vocabulary of the properties\<close>

text \<open>
  What a section (an entry of the array given to \<^verbatim>\<open>filterCoverage\<close>) reports, as
  sets of 0-based line indices: \<open>hitLines\<close> are the lines of its line details with
  \<^verbatim>\<open>line > 0\<close> and \<^verbatim>\<open>hit > 0\<close>, \<open>listedLines\<close> the lines of all its line details
  with \<^verbatim>\<open>line > 0\<close>, \<open>missedLines\<close> the lines of its line details with
  \<^verbatim>\<open>line > 0\<close> that take the \<^verbatim>\<open>else\<close> branch of \<^verbatim>\<open>detail.hit > 0\<close>, and
  \<open>untakenLines\<close> the lines of its branch details with \<^verbatim>\<open>taken === 0\<close> and
  \<^verbatim>\<open>line > 0\<close>.
\<close>

definition hitLines :: "'a Section_scheme option \<Rightarrow> int set" where
  "hitLines sec =
     (case sec of
        None \<Rightarrow> {}
      | Some s \<Rightarrow>
          (case lines s of
             None \<Rightarrow> {}
           | Some l \<Rightarrow>
               set (map (\<lambda>d. line d - 1)
                      (filter (\<lambda>d. line d > 0 \<and> hit d > 0) (ldetails l)))))"

definition listedLines :: "'a Section_scheme option \<Rightarrow> int set" where
  "listedLines sec =
     (case sec of
        None \<Rightarrow> {}
      | Some s \<Rightarrow>
          (case lines s of
             None \<Rightarrow> {}
           | Some l \<Rightarrow>
               set (map (\<lambda>d. line d - 1) (filter (\<lambda>d. line d > 0) (ldetails l)))))"

definition missedLines :: "'a Section_scheme option \<Rightarrow> int set" where
  "missedLines sec =
     (case sec of
        None \<Rightarrow> {}
      | Some s \<Rightarrow>
          (case lines s of
             None \<Rightarrow> {}
           | Some l \<Rightarrow>
               set (map (\<lambda>d. line d - 1)
                      (filter (\<lambda>d. line d > 0 \<and> \<not> hit d > 0) (ldetails l)))))"

definition untakenLines :: "'a Section_scheme option \<Rightarrow> int set" where
  "untakenLines sec =
     (case sec of
        None \<Rightarrow> {}
      | Some s \<Rightarrow>
          (case branches s of
             None \<Rightarrow> {}
           | Some b \<Rightarrow>
               set (map (\<lambda>d. bline d - 1)
                      (filter (\<lambda>d. taken d = 0 \<and> bline d > 0) (bdetails b)))))"

text \<open>
  Closed forms of what the two loops of \<^verbatim>\<open>mergeLineCoverage\<close> compute, used in the
  proofs: \<open>incomingHits\<close> is the set \<^verbatim>\<open>hits\<close>, \<open>bumpHit\<close> the effect of the first
  loop on one existing detail, \<open>mergedDetails\<close> the final \<^verbatim>\<open>details\<close> array and
  \<open>hitCount\<close> the number of details with a positive hit counter.
\<close>

definition bumpHit :: "int set \<Rightarrow> line_detail \<Rightarrow> line_detail" where
  "bumpHit hits d = (if line d \<in> hits then d\<lparr>hit := hit d + 1\<rparr> else d)"

definition hitCount :: "line_detail list \<Rightarrow> int" where
  "hitCount ds = int (length (filter (\<lambda>d. hit d > 0) ds))"

definition incomingHits :: "lines_summary \<Rightarrow> int set" where
  "incomingHits cl = set (map line (filter (\<lambda>d. hit d > 0) (ldetails cl)))"

definition mergedDetails :: "lines_summary \<Rightarrow> lines_summary \<Rightarrow> line_detail list" where
  "mergedDetails el cl =
     map (bumpHit (incomingHits cl)) (ldetails el) @
     filter (\<lambda>d. line d \<notin> set (map line (ldetails el))) (ldetails cl)"

text \<open>
  The error value that the parser chosen for a file's detected format reports, if it
  reports one: the value the Clover promise rejects with, the truthy \<^verbatim>\<open>err\<close> a
  callback parser calls back with, or the value it throws. A file of no recognized
  format is not parsed at all.
\<close>

definition parseError :: "'s collaborators \<Rightarrow> string \<Rightarrow> js_value option" where
  "parseError env fileContent =
     (case coverageFileType env fileContent of
        CLOVER \<Rightarrow>
          (case parseContentClover env fileContent of
             Resolves data \<Rightarrow> None
           | Rejects error \<Rightarrow> Some error)
      | JACOCO \<Rightarrow>
          (case parseContentJacoco env fileContent of
             CallsBack err data \<Rightarrow> (if truthy err then Some err else None)
           | Throws error \<Rightarrow> Some error)
      | COBERTURA \<Rightarrow>
          (case parseContentCobertura env fileContent of
             CallsBack err data \<Rightarrow> (if truthy err then Some err else None)
           | Throws error \<Rightarrow> Some error)
      | LCOV \<Rightarrow>
          (case source env fileContent of
             CallsBack err data \<Rightarrow> (if truthy err then Some err else None)
           | Throws error \<Rightarrow> Some error)
      | NONE \<Rightarrow> None)"

section \<open>Concrete sections\<close>

text \<open>
  Sections of one file used as concrete inputs below. \<open>exHitUntaken\<close>: line 1 was
  executed and has a branch that was not taken. \<open>exHit\<close>: line 1 was executed, no branch
  data. \<open>exMiss\<close>: line 1 was not executed, no branch data. \<open>exMissUntaken\<close>: line 1
  was not executed and has a branch that was not taken. \<open>exThree\<close>: lines 1 and 3 were
  executed, line 2 was not, and line 1 has a branch that was not taken. \<open>exTwo\<close>:
  lines 1 and 3 were executed and line 1 has a branch that was not taken.
\<close>

definition exHitUntaken :: Section where
  "exHitUntaken =
     \<lparr>title = ''t'', sfile = ''a.ts'',
      lines = Some \<lparr>ldetails = [\<lparr>line = 1, hit = 1\<rparr>], lhit = 1, lfound = 1\<rparr>,
      branches = Some \<lparr>bdetails = [\<lparr>bline = 1, block = 0, branch = 0, taken = 0\<rparr>],
                        bhit = 0, bfound = 1\<rparr>\<rparr>"

definition exHit :: Section where
  "exHit =
     \<lparr>title = ''t'', sfile = ''a.ts'',
      lines = Some \<lparr>ldetails = [\<lparr>line = 1, hit = 1\<rparr>], lhit = 1, lfound = 1\<rparr>,
      branches = None\<rparr>"

definition exMiss :: Section where
  "exMiss =
     \<lparr>title = ''t'', sfile = ''a.ts'',
      lines = Some \<lparr>ldetails = [\<lparr>line = 1, hit = 0\<rparr>], lhit = 0, lfound = 1\<rparr>,
      branches = None\<rparr>"

definition exMissUntaken :: Section where
  "exMissUntaken =
     \<lparr>title = ''t'', sfile = ''a.ts'',
      lines = Some \<lparr>ldetails = [\<lparr>line = 1, hit = 0\<rparr>], lhit = 0, lfound = 1\<rparr>,
      branches = Some \<lparr>bdetails = [\<lparr>bline = 1, block = 0, branch = 0, taken = 0\<rparr>],
                        bhit = 0, bfound = 1\<rparr>\<rparr>"



text \<open>
  Two sections with the same key for the merge. \<open>mergeA\<close> is the existing one: lines
  5, 6 and 7 with hit counters 3, 2 and 0. \<open>mergeB\<close> is the incoming one: line 5 with
  hit counter 7, line 6 with 0, and line 8, which \<open>mergeA\<close> does not have. \<open>mergeDup\<close>
  lists line 5 twice; \<open>mergeNoLines\<close> has an empty details array.
\<close>

definition mergeA :: Section where
  "mergeA =
     \<lparr>title = ''t'', sfile = ''a.ts'',
      lines = Some \<lparr>ldetails = [\<lparr>line = 5, hit = 3\<rparr>, \<lparr>line = 6, hit = 2\<rparr>,
                                 \<lparr>line = 7, hit = 0\<rparr>],
                    lhit = 2, lfound = 3\<rparr>,
      branches = Some \<lparr>bdetails = [\<lparr>bline = 5, block = 0, branch = 0, taken = 1\<rparr>,
                                    \<lparr>bline = 5, block = 0, branch = 1, taken = 0\<rparr>],
                        bhit = 1, bfound = 2\<rparr>\<rparr>"

definition mergeB :: Section where
  "mergeB =
     \<lparr>title = ''t'', sfile = ''a.ts'',
      lines = Some \<lparr>ldetails = [\<lparr>line = 5, hit = 7\<rparr>, \<lparr>line = 6, hit = 0\<rparr>,
                                 \<lparr>line = 8, hit = 1\<rparr>],
                    lhit = 2, lfound = 3\<rparr>,
      branches = None\<rparr>"

definition mergeDup :: Section where
  "mergeDup =
     \<lparr>title = ''t'', sfile = ''a.ts'',
      lines = Some \<lparr>ldetails = [\<lparr>line = 5, hit = 1\<rparr>, \<lparr>line = 5, hit = 0\<rparr>],
                    lhit = 1, lfound = 1\<rparr>,
      branches = None\<rparr>"

definition mergeNoLines :: Section where
  "mergeNoLines =
     \<lparr>title = ''t'', sfile = ''a.ts'',
      lines = Some \<lparr>ldetails = [], lhit = 0, lfound = 0\<rparr>,
      branches = None\<rparr>"

text \<open>\<open>mergedAB\<close> is what merging \<open>mergeB\<close> into \<open>mergeA\<close> gives.\<close>

definition mergedAB :: Section where
  "mergedAB =
     \<lparr>title = ''t'', sfile = ''a.ts'',
      lines = Some \<lparr>ldetails = [\<lparr>line = 5, hit = 4\<rparr>, \<lparr>line = 6, hit = 2\<rparr>,
                                 \<lparr>line = 7, hit = 0\<rparr>, \<lparr>line = 8, hit = 1\<rparr>],
                    lhit = 3, lfound = 4\<rparr>,
      branches = Some \<lparr>bdetails = [\<lparr>bline = 5, block = 0, branch = 0, taken = 1\<rparr>,
                                    \<lparr>bline = 5, block = 0, branch = 1, taken = 0\<rparr>],
                        bhit = 1, bfound = 2\<rparr>\<rparr>"

text \<open>
  Collaborators for a concrete run. The Clover parser yields \<open>mergeB\<close> for the content
  \<open><clover>\<close> and rejects with an \<^verbatim>\<open>Error\<close> on anything else; the JaCoCo parser calls
  back with an \<^verbatim>\<open>Error\<close>; the Cobertura parser throws an \<^verbatim>\<open>Error\<close>. The LCOV parser
  yields \<open>mergeA\<close> for the content \<open>A\<close>, \<open>mergeB\<close> for \<open>B\<close>, and on anything else calls
  back with the string that \<^verbatim>\<open>lcov-parse\<close> reports.
\<close>

definition exCollaborators :: "Section collaborators" where
  "exCollaborators =
     \<lparr>coverageFileType = (\<lambda>c. if c = ''<clover>'' \<or> c = ''<clover!>'' then CLOVER
                               else if c = ''<jacoco!>'' then JACOCO
                               else if c = ''<cobertura!>'' then COBERTURA
                               else if c = [] then NONE else LCOV),
      parseContentClover = (\<lambda>c. if c = ''<clover>'' then Resolves [mergeB]
                                  else Rejects (ErrorObject ''bad xml'')),
      parseContentJacoco = (\<lambda>c. CallsBack (ErrorObject ''bad xml'') []),
      parseContentCobertura = (\<lambda>c. Throws (ErrorObject ''bad xml'')),
      source = (\<lambda>c. if c = ''A'' then CallsBack JsNull [mergeA]
                      else if c = ''B'' then CallsBack JsNull [mergeB]
                      else CallsBack (JsString ''Failed to parse string'') [])\<rparr>"

section \<open>The classifier: what one pass and one section do\<close>

lemma lineDetailStep_full:
  "full (lineDetailStep d cs) = (if hit d > 0 then insert (line d - 1) (full cs) else full cs)"
  by (simp add: lineDetailStep_def Let_def)

lemma lineDetailStep_partial: "partial (lineDetailStep d cs) = partial cs"
  by (simp add: lineDetailStep_def Let_def)

lemma lineDetailStep_none:
  "none (lineDetailStep d cs) =
     (if hit d > 0 then none cs - {line d - 1}
      else if line d - 1 \<in> full cs then none cs else insert (line d - 1) (none cs))"
  by (auto simp add: lineDetailStep_def Let_def)

lemma branchDetailStep_full: "full (branchDetailStep d cs) = full cs - {bline d - 1}"
  by (auto simp add: branchDetailStep_def Let_def)

lemma branchDetailStep_partial:
  "partial (branchDetailStep d cs) =
     (if bline d - 1 \<in> full cs then insert (bline d - 1) (partial cs) else partial cs)"
  by (simp add: branchDetailStep_def Let_def)

lemma branchDetailStep_none: "none (branchDetailStep d cs) = none cs"
  by (simp add: branchDetailStep_def Let_def)

lemma linePass_partial: "partial (fold lineDetailStep ds cs) = partial cs"
  by (induction ds arbitrary: cs) (simp_all add: lineDetailStep_partial)

lemma linePass_full:
  "full (fold lineDetailStep ds cs) =
     full cs \<union> set (map (\<lambda>d. line d - 1) (filter (\<lambda>d. hit d > 0) ds))"
  by (induction ds arbitrary: cs) (auto simp add: lineDetailStep_full)

lemma linePass_full_none:
  "full cs \<inter> none cs = {} \<Longrightarrow>
   full (fold lineDetailStep ds cs) \<inter> none (fold lineDetailStep ds cs) = {}"
proof (induction ds arbitrary: cs)
  case Nil
  then show ?case by simp
next
  case (Cons d ds)
  have "full (lineDetailStep d cs) \<inter> none (lineDetailStep d cs) = {}"
    using Cons.prems by (auto simp add: lineDetailStep_full lineDetailStep_none)
  then show ?case using Cons.IH by simp
qed


lemma linePass_keeps_full_only:
  "L \<in> full cs \<Longrightarrow> L \<notin> none cs \<Longrightarrow> L \<notin> none (fold lineDetailStep ds cs)"
proof (induction ds arbitrary: cs)
  case Nil
  then show ?case by simp
next
  case (Cons d ds)
  have "L \<in> full (lineDetailStep d cs)" "L \<notin> none (lineDetailStep d cs)"
    using Cons.prems by (auto simp add: lineDetailStep_full lineDetailStep_none)
  then show ?case using Cons.IH by simp
qed

lemma linePass_hit_not_none:
  "d \<in> set ds \<Longrightarrow> hit d > 0 \<Longrightarrow> line d - 1 \<notin> none (fold lineDetailStep ds cs)"
proof (induction ds arbitrary: cs)
  case Nil
  then show ?case by simp
next
  case (Cons e ds)
  show ?case
  proof (cases "d = e")
    case True
    have "line d - 1 \<in> full (lineDetailStep e cs)" "line d - 1 \<notin> none (lineDetailStep e cs)"
      using True Cons.prems by (auto simp add: lineDetailStep_full lineDetailStep_none)
    then show ?thesis using linePass_keeps_full_only by simp
  next
    case False
    then show ?thesis using Cons by simp
  qed
qed

lemma branchPass_none: "none (fold branchDetailStep bs cs) = none cs"
  by (induction bs arbitrary: cs) (simp_all add: branchDetailStep_none)

lemma branchPass_full:
  "full (fold branchDetailStep bs cs) = full cs - set (map (\<lambda>d. bline d - 1) bs)"
  by (induction bs arbitrary: cs) (auto simp add: branchDetailStep_full)

lemma branchPass_partial:
  "partial (fold branchDetailStep bs cs) =
     partial cs \<union> (full cs \<inter> set (map (\<lambda>d. bline d - 1) bs))"
  by (induction bs arbitrary: cs) (auto simp add: branchDetailStep_full branchDetailStep_partial)

text \<open>The three sets of the vocabulary, spelled out on the details of the section.\<close>

lemma hitLines_iff:
  "L \<in> hitLines sec \<longleftrightarrow>
     (\<exists>s l d. sec = Some s \<and> lines s = Some l \<and> d \<in> set (ldetails l) \<and>
        line d > 0 \<and> hit d > 0 \<and> L = line d - 1)"
  by (auto simp add: hitLines_def split: option.splits)

lemma listedLines_iff:
  "L \<in> listedLines sec \<longleftrightarrow>
     (\<exists>s l d. sec = Some s \<and> lines s = Some l \<and> d \<in> set (ldetails l) \<and>
        line d > 0 \<and> L = line d - 1)"
  by (auto simp add: listedLines_def split: option.splits)

lemma untakenLines_iff:
  "L \<in> untakenLines sec \<longleftrightarrow>
     (\<exists>s b d. sec = Some s \<and> branches s = Some b \<and> d \<in> set (bdetails b) \<and>
        taken d = 0 \<and> bline d > 0 \<and> L = bline d - 1)"
  by (auto simp add: untakenLines_def split: option.splits)


lemma sectionStep_full:
  "full (sectionStep sec cs) = (full cs \<union> hitLines sec) - untakenLines sec"
  by (auto simp add: sectionStep_def filterBranchCoverage_def filterLineCoverage_def
      hitLines_def untakenLines_def branchPass_full linePass_full split: option.splits)

lemma sectionStep_partial:
  "partial (sectionStep sec cs) =
     partial cs \<union> ((full cs \<union> hitLines sec) \<inter> untakenLines sec)"
  by (auto simp add: sectionStep_def filterBranchCoverage_def filterLineCoverage_def
      hitLines_def untakenLines_def branchPass_partial linePass_partial linePass_full
      split: option.splits)

lemma filterLineCoverage_full_none:
  "full cs \<inter> none cs = {} \<Longrightarrow>
   full (filterLineCoverage sec cs) \<inter> none (filterLineCoverage sec cs) = {}"
  by (simp add: filterLineCoverage_def linePass_full_none split: option.splits)

lemma filterBranchCoverage_none: "none (filterBranchCoverage sec cs) = none cs"
  by (simp add: filterBranchCoverage_def branchPass_none split: option.splits)

lemma filterBranchCoverage_full_subset: "full (filterBranchCoverage sec cs) \<subseteq> full cs"
  by (auto simp add: filterBranchCoverage_def branchPass_full split: option.splits)

lemma sectionStep_full_none:
  assumes "full cs \<inter> none cs = {}"
  shows "full (sectionStep sec cs) \<inter> none (sectionStep sec cs) = {}"
proof -
  have "full (filterLineCoverage sec cs) \<inter> none (filterLineCoverage sec cs) = {}"
    using assms by (rule filterLineCoverage_full_none)
  then show ?thesis
    using filterBranchCoverage_full_subset [of sec "filterLineCoverage sec cs"]
    by (auto simp add: sectionStep_def filterBranchCoverage_none)
qed


lemma sectionStep_keeps_full_only:
  "L \<in> full cs \<Longrightarrow> L \<notin> none cs \<Longrightarrow> L \<notin> none (sectionStep sec cs)"
  by (auto simp add: sectionStep_def filterBranchCoverage_none filterLineCoverage_def
      linePass_keeps_full_only split: option.splits)

lemma sectionStep_hit_not_none:
  "L \<in> hitLines sec \<Longrightarrow> L \<notin> none (sectionStep sec cs)"
  by (auto simp add: sectionStep_def filterBranchCoverage_none filterLineCoverage_def
      hitLines_def linePass_hit_not_none split: option.splits)

lemma missedLines_iff:
  "L \<in> missedLines sec \<longleftrightarrow>
     (\<exists>s l d. sec = Some s \<and> lines s = Some l \<and> d \<in> set (ldetails l) \<and>
        line d > 0 \<and> \<not> hit d > 0 \<and> L = line d - 1)"
  by (auto simp add: missedLines_def split: option.splits)

lemma linePass_no_miss:
  "L \<notin> none cs \<Longrightarrow>
   L \<notin> set (map (\<lambda>d. line d - 1) (filter (\<lambda>d. \<not> hit d > 0) ds)) \<Longrightarrow>
   L \<notin> none (fold lineDetailStep ds cs)"
proof (induction ds arbitrary: cs)
  case Nil
  then show ?case by simp
next
  case (Cons d ds)
  have "L \<notin> none (lineDetailStep d cs)"
    using Cons.prems by (auto simp add: lineDetailStep_none)
  moreover have "L \<notin> set (map (\<lambda>d. line d - 1) (filter (\<lambda>d. \<not> hit d > 0) ds))"
    using Cons.prems(2) by auto
  ultimately show ?case using Cons.IH by simp
qed

lemma sectionStep_no_miss:
  "L \<notin> none cs \<Longrightarrow> L \<notin> missedLines sec \<Longrightarrow> L \<notin> none (sectionStep sec cs)"
proof (cases sec)
  case None
  then show "L \<notin> none cs \<Longrightarrow> ?thesis"
    by (simp add: sectionStep_def filterBranchCoverage_def filterLineCoverage_def)
next
  case (Some s)
  assume n: "L \<notin> none cs" and m: "L \<notin> missedLines sec"
  show ?thesis
  proof (cases "lines s")
    case None
    then show ?thesis
      using n Some by (simp add: sectionStep_def filterBranchCoverage_none filterLineCoverage_def)
  next
    case (Some l)
    let ?ds = "filter (\<lambda>d. line d > 0) (ldetails l)"
    have "L \<notin> set (map (\<lambda>d. line d - 1) (filter (\<lambda>d. \<not> hit d > 0) ?ds))"
      using m \<open>sec = Some s\<close> Some by (auto simp add: missedLines_def)
    then have "L \<notin> none (fold lineDetailStep ?ds cs)"
      using n linePass_no_miss by blast
    then show ?thesis
      using \<open>sec = Some s\<close> Some
      by (simp add: sectionStep_def filterBranchCoverage_none filterLineCoverage_def)
  qed
qed

lemma filterCoverage_Nil: "filterCoverage [] cs = cs"
  by (simp add: filterCoverage_def)

lemma filterCoverage_Cons:
  "filterCoverage (sec # secs) cs = filterCoverage secs (sectionStep sec cs)"
  by (simp add: filterCoverage_def)

lemma filterCoverage_append:
  "filterCoverage (xs @ ys) cs = filterCoverage ys (filterCoverage xs cs)"
  by (simp add: filterCoverage_def)

section \<open>The classifier: invariants over a sequence of sections\<close>

lemmas classifier_defs =
  classify_def filterCoverage_def sectionStep_def filterLineCoverage_def
  filterBranchCoverage_def lineDetailStep_def branchDetailStep_def emptySets_def

lemma filterCoverage_full_none:
  "full cs \<inter> none cs = {} \<Longrightarrow>
   full (filterCoverage secs cs) \<inter> none (filterCoverage secs cs) = {}"
  by (induction secs arbitrary: cs)
     (simp_all add: filterCoverage_Nil filterCoverage_Cons sectionStep_full_none)




lemma filterCoverage_covered_mono:
  "L \<in> full cs \<union> partial cs \<Longrightarrow>
   L \<in> full (filterCoverage secs cs) \<union> partial (filterCoverage secs cs)"
proof (induction secs arbitrary: cs)
  case Nil
  then show ?case by (simp add: filterCoverage_Nil)
next
  case (Cons sec secs)
  have "L \<in> full (sectionStep sec cs) \<union> partial (sectionStep sec cs)"
    using Cons.prems by (auto simp add: sectionStep_full sectionStep_partial)
  then show ?case using Cons.IH by (simp add: filterCoverage_Cons)
qed

lemma filterCoverage_hit_covered:
  assumes "sec \<in> set secs" and "L \<in> hitLines sec"
  shows "L \<in> full (filterCoverage secs cs) \<union> partial (filterCoverage secs cs)"
proof -
  obtain pre post where split: "secs = pre @ sec # post"
    using assms(1) by (auto simp add: in_set_conv_decomp)
  have "L \<in> full (sectionStep sec (filterCoverage pre cs)) \<union>
            partial (sectionStep sec (filterCoverage pre cs))"
    using assms(2) by (auto simp add: sectionStep_full sectionStep_partial)
  then show ?thesis
    unfolding split filterCoverage_append filterCoverage_Cons
    by (rule filterCoverage_covered_mono)
qed

lemma filterCoverage_no_late_miss:
  assumes "L \<notin> none cs"
    and "\<not> b \<longrightarrow> L \<in> full cs"
    and "\<forall>k < length ts. L \<in> missedLines (ts ! k) \<longrightarrow>
           \<not> b \<and> (\<forall>m < k. L \<notin> untakenLines (ts ! m))"
  shows "L \<notin> none (filterCoverage ts cs)"
  using assms
proof (induction ts arbitrary: cs b)
  case Nil
  then show ?case by (simp add: filterCoverage_Nil)
next
  case (Cons t ts)
  let ?cs = "sectionStep t cs"
  let ?b = "b \<or> L \<in> untakenLines t"
  have head: "L \<in> missedLines t \<longrightarrow> \<not> b"
    using Cons.prems(3) by force
  have 1: "L \<notin> none ?cs"
  proof (cases "L \<in> missedLines t")
    case True
    then have "L \<in> full cs" using head Cons.prems(2) by blast
    then show ?thesis using Cons.prems(1) by (rule sectionStep_keeps_full_only)
  next
    case False
    then show ?thesis using Cons.prems(1) by (simp add: sectionStep_no_miss)
  qed
  have 2: "\<not> ?b \<longrightarrow> L \<in> full ?cs"
    using Cons.prems(2) by (simp add: sectionStep_full)
  have 3: "\<forall>k < length ts. L \<in> missedLines (ts ! k) \<longrightarrow>
             \<not> ?b \<and> (\<forall>m < k. L \<notin> untakenLines (ts ! m))"
  proof (intro allI impI)
    fix k assume k: "k < length ts" and m: "L \<in> missedLines (ts ! k)"
    have "Suc k < length (t # ts)" using k by simp
    moreover have "L \<in> missedLines ((t # ts) ! Suc k)" using m by simp
    ultimately have h: "\<not> b \<and> (\<forall>m < Suc k. L \<notin> untakenLines ((t # ts) ! m))"
      using Cons.prems(3) by blast
    have "L \<notin> untakenLines t" using h by force
    moreover have "\<forall>m < k. L \<notin> untakenLines (ts ! m)"
    proof (intro allI impI)
      fix m assume "m < k"
      then have "Suc m < Suc k" by simp
      then have "L \<notin> untakenLines ((t # ts) ! Suc m)" using h by blast
      then show "L \<notin> untakenLines (ts ! m)" by simp
    qed
    ultimately show "\<not> ?b \<and> (\<forall>m < k. L \<notin> untakenLines (ts ! m))" using h by blast
  qed
  show ?case
    using Cons.IH [OF 1 2 3] by (simp add: filterCoverage_Cons)
qed

text \<open>
  The sections of a sequence from one position on: the one at the position and the ones
  after it.
\<close>

lemma classify_at:
  assumes "i < length secs"
  shows "classify secs =
           filterCoverage (drop (Suc i) secs)
             (sectionStep (secs ! i) (filterCoverage (take i secs) emptySets))"
proof -
  have "secs = take i secs @ secs ! i # drop (Suc i) secs"
    using assms by (rule id_take_nth_drop)
  then have "classify secs = filterCoverage (take i secs @ secs ! i # drop (Suc i) secs) emptySets"
    by (simp add: classify_def)
  then show ?thesis by (simp only: filterCoverage_append filterCoverage_Cons)
qed

lemma later_section:
  assumes "t \<in> set (drop (Suc i) secs)"
  shows "\<exists>k. i < k \<and> k < length secs \<and> secs ! k = t"
proof -
  obtain n where n: "n < length (drop (Suc i) secs)" "drop (Suc i) secs ! n = t"
    using assms by (auto simp add: in_set_conv_nth)
  have "Suc i + n < length secs" using n(1) by simp
  moreover have "secs ! (Suc i + n) = t" using n by simp
  ultimately show ?thesis by (metis less_add_Suc1 add_Suc)
qed

lemma filterCoverage_stays_full:
  "L \<in> full cs \<Longrightarrow> L \<notin> none cs \<Longrightarrow> \<forall>t \<in> set secs. L \<notin> untakenLines t \<Longrightarrow>
   L \<in> full (filterCoverage secs cs) \<and> L \<notin> none (filterCoverage secs cs)"
proof (induction secs arbitrary: cs)
  case Nil
  then show ?case by (simp add: filterCoverage_Nil)
next
  case (Cons sec secs)
  have "L \<in> full (sectionStep sec cs)"
    using Cons.prems by (simp add: sectionStep_full)
  moreover have "L \<notin> none (sectionStep sec cs)"
    using Cons.prems sectionStep_keeps_full_only by blast
  ultimately show ?case using Cons.IH Cons.prems(3) by (simp add: filterCoverage_Cons)
qed

lemma filterCoverage_partial_mono:
  "L \<in> partial cs \<Longrightarrow> L \<in> partial (filterCoverage secs cs)"
  by (induction secs arbitrary: cs)
     (simp_all add: filterCoverage_Nil filterCoverage_Cons sectionStep_partial)

lemma filterCoverage_stays_out_of_full:
  "L \<notin> full cs \<Longrightarrow> \<forall>t \<in> set secs. L \<in> hitLines t \<longrightarrow> L \<in> untakenLines t \<Longrightarrow>
   L \<notin> full (filterCoverage secs cs)"
proof (induction secs arbitrary: cs)
  case Nil
  then show ?case by (simp add: filterCoverage_Nil)
next
  case (Cons sec secs)
  have "L \<notin> full (sectionStep sec cs)"
    using Cons.prems by (auto simp add: sectionStep_full)
  then show ?case using Cons.IH Cons.prems(2) by (simp add: filterCoverage_Cons)
qed

lemma filterCoverage_covered_origin:
  "full (filterCoverage secs cs) \<union> partial (filterCoverage secs cs)
     \<subseteq> full cs \<union> partial cs \<union> \<Union> (hitLines ` set secs)"
proof (induction secs arbitrary: cs)
  case Nil
  then show ?case by (simp add: filterCoverage_Nil)
next
  case (Cons sec secs)
  have "full (sectionStep sec cs) \<union> partial (sectionStep sec cs)
          \<subseteq> full cs \<union> partial cs \<union> hitLines sec"
    by (auto simp add: sectionStep_full sectionStep_partial)
  then show ?case using Cons.IH [of "sectionStep sec cs"]
    by (auto simp add: filterCoverage_Cons)
qed

subsection \<open>C1: disjointness of the three sets\<close>




subsection \<open>C2: a line that was hit stays covered\<close>

text \<open>
  C2, as amended. Let the section at position \<open>i\<close> of the sequence report a line with
  \<^verbatim>\<open>hit > 0\<close>. The line ends in \<open>full\<close> or in \<open>partial\<close>, and if it ends in \<open>full\<close> it
  is not in \<open>none\<close>. If no section from position \<open>i\<close> on has a branch detail with
  \<^verbatim>\<open>taken === 0\<close> on the line, it ends in \<open>full\<close> and not in \<open>none\<close>. If no later
  section lists the line without a hit, it is not in \<open>none\<close>. More generally it is not
  in \<open>none\<close> when, for every later section that lists it without a hit, no section from
  position \<open>i\<close> up to that one (that one excluded) has a branch detail with
  \<^verbatim>\<open>taken === 0\<close> on it.
\<close>

theorem hit_line_covered:
  assumes i: "i < length secs" and L: "L \<in> hitLines (secs ! i)"
  shows "L \<in> full (classify secs) \<union> partial (classify secs) \<and>
         (L \<in> full (classify secs) \<longrightarrow> L \<notin> none (classify secs)) \<and>
         ((\<forall>k. i \<le> k \<and> k < length secs \<longrightarrow> L \<notin> untakenLines (secs ! k)) \<longrightarrow>
            L \<in> full (classify secs) \<and> L \<notin> none (classify secs)) \<and>
         ((\<forall>k. i < k \<and> k < length secs \<longrightarrow> L \<notin> missedLines (secs ! k)) \<longrightarrow>
            L \<notin> none (classify secs)) \<and>
         ((\<forall>k m. i \<le> m \<and> m < k \<and> k < length secs \<and> L \<in> missedLines (secs ! k) \<longrightarrow>
              L \<notin> untakenLines (secs ! m)) \<longrightarrow>
            L \<notin> none (classify secs))"
proof -
  define cs where "cs = filterCoverage (take i secs) emptySets"
  let ?post = "drop (Suc i) secs"
  let ?cs = "sectionStep (secs ! i) cs"
  have fc: "classify secs = filterCoverage ?post ?cs"
    unfolding cs_def using i by (rule classify_at)
  have n1: "L \<notin> none ?cs" using L by (rule sectionStep_hit_not_none)
  have "L \<in> full ?cs \<union> partial ?cs"
    using L by (auto simp add: sectionStep_full sectionStep_partial)
  then have a: "L \<in> full (classify secs) \<union> partial (classify secs)"
    unfolding fc by (rule filterCoverage_covered_mono)
  have "full (classify secs) \<inter> none (classify secs) = {}"
    unfolding classify_def by (rule filterCoverage_full_none) (simp add: emptySets_def)
  then have b: "L \<in> full (classify secs) \<longrightarrow> L \<notin> none (classify secs)" by blast
  have c: "L \<in> full (classify secs) \<and> L \<notin> none (classify secs)"
    if h: "\<forall>k. i \<le> k \<and> k < length secs \<longrightarrow> L \<notin> untakenLines (secs ! k)"
  proof -
    have "L \<notin> untakenLines (secs ! i)" using h i by blast
    then have f1: "L \<in> full ?cs" using L by (simp add: sectionStep_full)
    have u1: "\<forall>t \<in> set ?post. L \<notin> untakenLines t"
    proof
      fix t assume "t \<in> set ?post"
      then have "\<exists>k. i < k \<and> k < length secs \<and> secs ! k = t" by (rule later_section)
      then obtain k where k: "i < k" "k < length secs" "secs ! k = t" by blast
      show "L \<notin> untakenLines t" using h [rule_format, of k] k by simp
    qed
    show ?thesis unfolding fc using f1 n1 u1 by (rule filterCoverage_stays_full)
  qed
  have e: "L \<notin> none (classify secs)"
    if h: "\<forall>k m. i \<le> m \<and> m < k \<and> k < length secs \<and> L \<in> missedLines (secs ! k) \<longrightarrow>
              L \<notin> untakenLines (secs ! m)"
  proof -
    let ?b = "L \<in> untakenLines (secs ! i)"
    have 2: "\<not> ?b \<longrightarrow> L \<in> full ?cs" using L by (simp add: sectionStep_full)
    have 3: "\<forall>k < length ?post. L \<in> missedLines (?post ! k) \<longrightarrow>
               \<not> ?b \<and> (\<forall>m < k. L \<notin> untakenLines (?post ! m))"
    proof (intro allI impI)
      fix k assume k: "k < length ?post" and m: "L \<in> missedLines (?post ! k)"
      have K: "Suc i + k < length secs" using k by simp
      have M: "L \<in> missedLines (secs ! (Suc i + k))" using m k by simp
      have "\<not> ?b" using h [rule_format, of i "Suc i + k"] K M by simp
      moreover have "\<forall>m < k. L \<notin> untakenLines (?post ! m)"
      proof (intro allI impI)
        fix m assume mk: "m < k"
        have "L \<notin> untakenLines (secs ! (Suc i + m))"
          using h [rule_format, of "Suc i + m" "Suc i + k"] K M mk by simp
        moreover have "Suc i + m < length secs" using mk K by simp
        ultimately show "L \<notin> untakenLines (?post ! m)" by simp
      qed
      ultimately show "\<not> ?b \<and> (\<forall>m < k. L \<notin> untakenLines (?post ! m))" by blast
    qed
    show ?thesis unfolding fc using n1 2 3 by (rule filterCoverage_no_late_miss)
  qed
  have d: "L \<notin> none (classify secs)"
    if h: "\<forall>k. i < k \<and> k < length secs \<longrightarrow> L \<notin> missedLines (secs ! k)"
  proof (rule e, intro allI impI)
    fix k m
    assume "i \<le> m \<and> m < k \<and> k < length secs \<and> L \<in> missedLines (secs ! k)"
    then have "i < k" "k < length secs" "L \<in> missedLines (secs ! k)" by simp_all
    then have False using h [rule_format, of k] by simp
    then show "L \<notin> untakenLines (secs ! m)" ..
  qed
  show ?thesis using a b c d e by blast
qed

text \<open>
  Witness: line 1 is missed, then hit with an untaken branch, then hit again, then
  missed: it ends in \<open>full\<close> and \<open>partial\<close> and not in \<open>none\<close>. The theorem is used at
  position 2, the last hit, after which no section has an untaken branch on the line
  (so the later miss finds it in \<open>full\<close>); and at position 1 of the first three
  sections, after which no section misses the line.
\<close>

theorem hit_line_covered_witness:
  "0 \<in> hitLines (Some exHit) \<and> 0 \<in> hitLines (Some exHitUntaken) \<and>
   0 \<notin> untakenLines (Some exHit) \<and> 0 \<notin> untakenLines (Some exMiss) \<and>
   0 \<notin> missedLines (Some exHit) \<and>
   0 \<in> full (classify [Some exMiss, Some exHitUntaken, Some exHit, Some exMiss]) \<and>
   0 \<notin> none (classify [Some exMiss, Some exHitUntaken, Some exHit, Some exMiss]) \<and>
   0 \<in> full (classify [Some exMiss, Some exHitUntaken, Some exHit]) \<union>
         partial (classify [Some exMiss, Some exHitUntaken, Some exHit]) \<and>
   0 \<notin> none (classify [Some exMiss, Some exHitUntaken, Some exHit])"
proof -
  let ?four = "[Some exMiss, Some exHitUntaken, Some exHit, Some exMiss]"
  let ?three = "[Some exMiss, Some exHitUntaken, Some exHit]"
  have l: "0 \<in> hitLines (Some exHit)" by (simp add: hitLines_def exHit_def)
  have l': "0 \<in> hitLines (Some exHitUntaken)" by (simp add: hitLines_def exHitUntaken_def)
  have u: "0 \<notin> untakenLines (Some exHit)" "0 \<notin> untakenLines (Some exMiss)"
    by (simp_all add: untakenLines_def exHit_def exMiss_def)
  have m: "0 \<notin> missedLines (Some exHit)" by (simp add: missedLines_def exHit_def)
  have h4: "\<forall>k. 2 \<le> k \<and> k < length ?four \<longrightarrow> 0 \<notin> untakenLines (?four ! k)"
  proof (intro allI impI)
    fix k :: nat assume "2 \<le> k \<and> k < length ?four"
    then have "k = 2 \<or> k = 3" by auto
    then show "0 \<notin> untakenLines (?four ! k)" using u by auto
  qed
  have h3: "\<forall>k. 1 < k \<and> k < length ?three \<longrightarrow> 0 \<notin> missedLines (?three ! k)"
  proof (intro allI impI)
    fix k :: nat assume "1 < k \<and> k < length ?three"
    then have "k = 2" by auto
    then show "0 \<notin> missedLines (?three ! k)" using m by simp
  qed
  have h5: "\<forall>k m. 2 \<le> m \<and> m < k \<and> k < length ?four \<and> 0 \<in> missedLines (?four ! k) \<longrightarrow>
              0 \<notin> untakenLines (?four ! m)"
  proof (intro allI impI)
    fix k m :: nat
    assume "2 \<le> m \<and> m < k \<and> k < length ?four \<and> 0 \<in> missedLines (?four ! k)"
    then have "m = 2" by auto
    then show "0 \<notin> untakenLines (?four ! m)" using u by simp
  qed
  have i4: "2 < length ?four" and l4: "0 \<in> hitLines (?four ! 2)" using l by simp_all
  have i3: "1 < length ?three" and l3: "0 \<in> hitLines (?three ! 1)" using l' by simp_all
  have "0 \<notin> none (classify ?four)"
    using hit_line_covered [OF i4 l4] h5 by blast
  have "0 \<in> full (classify ?four) \<and> 0 \<notin> none (classify ?four)"
    using hit_line_covered [OF i4 l4] h4 by blast
  moreover have "0 \<in> full (classify ?three) \<union> partial (classify ?three) \<and>
      0 \<notin> none (classify ?three)"
    using hit_line_covered [OF i3 l3] h3 by blast
  ultimately show ?thesis using l l' u m by blast
qed

text \<open>
  Counterexample to C2 as stated: the first section reports line 1 as hit and moves it
  to \<open>partial\<close>; the second reports zero hits, finds the line absent from \<open>full\<close> and
  adds it to \<open>none\<close>.
\<close>

theorem hit_line_covered_counterexample:
  "0 \<in> hitLines (Some exHitUntaken) \<and>
   classify [Some exHitUntaken, Some exMiss] = \<lparr>full = {}, partial = {0}, none = {0}\<rparr> \<and>
   0 \<in> none (classify [Some exHitUntaken, Some exMiss])"
  by (simp add: classifier_defs hitLines_def exHitUntaken_def exMiss_def)

subsection \<open>C3: the branch downgrade\<close>

text \<open>
  C3, as amended. When the section at position \<open>i\<close> of the sequence reports a line
  with \<^verbatim>\<open>hit > 0\<close> and the section at a position \<open>j\<close>, the same or a later one, has a
  branch detail with \<^verbatim>\<open>taken === 0\<close> on that line, the line is in the final
  \<open>partial\<close> set; it is not in the final \<open>full\<close> set provided that every section after
  position \<open>j\<close> that reports the line with \<^verbatim>\<open>hit > 0\<close> has such a branch detail too.
\<close>

theorem untaken_branch_partial:
  assumes ij: "i \<le> j" and j: "j < length secs"
    and hit: "L \<in> hitLines (secs ! i)" and untaken: "L \<in> untakenLines (secs ! j)"
  shows "L \<in> partial (classify secs) \<and>
         ((\<forall>k. j < k \<and> k < length secs \<and> L \<in> hitLines (secs ! k) \<longrightarrow>
              L \<in> untakenLines (secs ! k)) \<longrightarrow>
            L \<notin> full (classify secs))"
proof -
  define cs where "cs = filterCoverage (take j secs) emptySets"
  let ?post = "drop (Suc j) secs"
  let ?cs = "sectionStep (secs ! j) cs"
  have fc: "classify secs = filterCoverage ?post ?cs"
    unfolding cs_def using j by (rule classify_at)
  have before: "L \<in> full cs \<union> partial cs \<or> L \<in> hitLines (secs ! j)"
  proof (cases "i = j")
    case True
    then show ?thesis using hit by simp
  next
    case False
    then have "i < j" using ij by simp
    then have a1: "i < length (take j secs)" and a2: "take j secs ! i = secs ! i"
      using j by simp_all
    have "take j secs ! i \<in> set (take j secs)" using a1 by (rule nth_mem)
    then have "secs ! i \<in> set (take j secs)" by (simp only: a2)
    then have "L \<in> full cs \<union> partial cs"
      unfolding cs_def using hit by (rule filterCoverage_hit_covered)
    then show ?thesis ..
  qed
  have p: "L \<in> partial ?cs"
    using before untaken by (auto simp add: sectionStep_partial)
  have f: "L \<notin> full ?cs"
    using untaken by (simp add: sectionStep_full)
  have "L \<in> partial (classify secs)"
    unfolding fc using p by (rule filterCoverage_partial_mono)
  moreover have "L \<notin> full (classify secs)"
    if h: "\<forall>k. j < k \<and> k < length secs \<and> L \<in> hitLines (secs ! k) \<longrightarrow>
              L \<in> untakenLines (secs ! k)"
  proof -
    have "\<forall>t \<in> set ?post. L \<in> hitLines t \<longrightarrow> L \<in> untakenLines t"
    proof
      fix t assume "t \<in> set ?post"
      then have "\<exists>k. j < k \<and> k < length secs \<and> secs ! k = t" by (rule later_section)
      then obtain k where k: "j < k" "k < length secs" "secs ! k = t" by blast
      show "L \<in> hitLines t \<longrightarrow> L \<in> untakenLines t"
        using h [rule_format, of k] k by simp
    qed
    with f show ?thesis unfolding fc by (rule filterCoverage_stays_out_of_full)
  qed
  ultimately show ?thesis by blast
qed

text \<open>
  Witness: line 1 is hit in the first section and has its untaken branch in the
  second, which reports zero hits; a third section misses the line again.
\<close>

theorem untaken_branch_partial_witness:
  "0 \<in> hitLines (Some exHit) \<and> 0 \<in> untakenLines (Some exMissUntaken) \<and>
   0 \<notin> hitLines (Some exMiss) \<and>
   0 \<in> partial (classify [Some exHit, Some exMissUntaken, Some exMiss]) \<and>
   0 \<notin> full (classify [Some exHit, Some exMissUntaken, Some exMiss])"
proof -
  let ?secs = "[Some exHit, Some exMissUntaken, Some exMiss]"
  have l: "0 \<in> hitLines (Some exHit)" by (simp add: hitLines_def exHit_def)
  have u: "0 \<in> untakenLines (Some exMissUntaken)"
    by (simp add: untakenLines_def exMissUntaken_def)
  have n: "0 \<notin> hitLines (Some exMiss)" by (simp add: hitLines_def exMiss_def)
  have h: "\<forall>k. 1 < k \<and> k < length ?secs \<and> 0 \<in> hitLines (?secs ! k) \<longrightarrow>
             0 \<in> untakenLines (?secs ! k)"
  proof (intro allI impI)
    fix k :: nat assume a: "1 < k \<and> k < length ?secs \<and> 0 \<in> hitLines (?secs ! k)"
    then have "k = 2" by auto
    then show "0 \<in> untakenLines (?secs ! k)" using a n by simp
  qed
  have "0 \<in> partial (classify ?secs) \<and>
        ((\<forall>k. 1 < k \<and> k < length ?secs \<and> 0 \<in> hitLines (?secs ! k) \<longrightarrow>
              0 \<in> untakenLines (?secs ! k)) \<longrightarrow>
         0 \<notin> full (classify ?secs))"
    by (rule untaken_branch_partial [of 0 1 ?secs 0]) (simp_all add: l u)
  then have "0 \<in> partial (classify ?secs) \<and> 0 \<notin> full (classify ?secs)"
    using h by blast
  then show ?thesis using l u n by blast
qed

text \<open>
  Counterexample to C3 as stated: the untaken branch of line 1 is in the first section,
  which reports zero hits; the second section reports the line as hit. The branch pass
  of the first section ran before the line entered \<open>full\<close>, so the line ends in \<open>full\<close>
  and not in \<open>partial\<close>.
\<close>

theorem untaken_branch_partial_counterexample:
  "0 \<in> hitLines (Some exHit) \<and> 0 \<in> untakenLines (Some exMissUntaken) \<and>
   classify [Some exMissUntaken, Some exHit] = \<lparr>full = {0}, partial = {}, none = {}\<rparr> \<and>
   0 \<in> full (classify [Some exMissUntaken, Some exHit]) \<and>
   0 \<notin> partial (classify [Some exMissUntaken, Some exHit])"
  by (simp add: classifier_defs hitLines_def untakenLines_def
      exMissUntaken_def exHit_def)

subsection \<open>C8: the classification example\<close>

text \<open>
  C8. Classifying exactly one section whose line details are
  \<^verbatim>\<open>[{line:1,hit:2},{line:2,hit:0}]\<close> and whose branch details are
  \<^verbatim>\<open>[{line:1,block:0,branch:0,taken:0}]\<close> yields \<open>full = {}\<close>, \<open>partial = {0}\<close> and
  \<open>none = {1}\<close>, whatever the other fields of the section hold.
\<close>

theorem classification_example:
  "classify
     [Some \<lparr>title = t, sfile = f,
            lines = Some \<lparr>ldetails = [\<lparr>line = 1, hit = 2\<rparr>, \<lparr>line = 2, hit = 0\<rparr>],
                          lhit = lh, lfound = lf\<rparr>,
            branches = Some \<lparr>bdetails = [\<lparr>bline = 1, block = 0, branch = 0, taken = 0\<rparr>],
                             bhit = bh, bfound = bf\<rparr>,
            \<dots> = rest\<rparr>]
   = \<lparr>full = {}, partial = {0}, none = {1}\<rparr>"
  by (simp add: classifier_defs)

subsection \<open>C10: the origin of a partial line\<close>

text \<open>
  C10. For every sequence of sections given to the classifier, every line index in the
  final \<open>partial\<close> set is the index of a line detail with \<^verbatim>\<open>line > 0\<close> and
  \<^verbatim>\<open>hit > 0\<close> of some section of the sequence.
\<close>

theorem partial_was_hit:
  assumes "L \<in> partial (classify secs)"
  shows "\<exists>s l d. Some s \<in> set secs \<and> lines s = Some l \<and> d \<in> set (ldetails l) \<and>
           line d > 0 \<and> hit d > 0 \<and> L = line d - 1"
proof -
  have "L \<in> \<Union> (hitLines ` set secs)"
    using assms filterCoverage_covered_origin [of secs emptySets]
    by (auto simp add: classify_def emptySets_def)
  then obtain sec where "sec \<in> set secs" "L \<in> hitLines sec" by blast
  then show ?thesis
    by (auto simp add: hitLines_def split: option.splits)
qed

theorem partial_was_hit_witness:
  "0 \<in> partial (classify [Some exHitUntaken]) \<and>
   (\<exists>s l d. Some s \<in> set [Some exHitUntaken] \<and> lines s = Some l \<and> d \<in> set (ldetails l) \<and>
      line d > 0 \<and> hit d > 0 \<and> (0::int) = line d - 1)"
proof -
  have p: "0 \<in> partial (classify [Some exHitUntaken])"
    by (simp add: classifier_defs exHitUntaken_def)
  show ?thesis using partial_was_hit [OF p] p by blast
qed

section \<open>The section merger: the two loops in closed form\<close>

lemma hitCount_append: "hitCount (xs @ ys) = hitCount xs + hitCount ys"
  by (simp add: hitCount_def)

lemma line_bumpHit: "line (bumpHit hits d) = line d"
  by (simp add: bumpHit_def)

lemma existingLineStep_apply:
  "existingLineStep hits d st =
     \<lparr>mhit = mhit st + hitCount [bumpHit hits d],
      mfound = mfound st + 1,
      mseen = insert (line d) (mseen st),
      mdetails = mdetails st @ [bumpHit hits d]\<rparr>"
  unfolding existingLineStep_def bumpHit_def hitCount_def Let_def by simp

lemma incomingLineStep_apply:
  "incomingLineStep d st =
     \<lparr>mhit = mhit st + hitCount [d],
      mfound = mfound st + 1,
      mseen = mseen st,
      mdetails = mdetails st @ [d]\<rparr>"
  unfolding incomingLineStep_def hitCount_def by simp

lemma existingLoop:
  "fold (existingLineStep hits) ds st =
     \<lparr>mhit = mhit st + hitCount (map (bumpHit hits) ds),
      mfound = mfound st + int (length ds),
      mseen = mseen st \<union> set (map line ds),
      mdetails = mdetails st @ map (bumpHit hits) ds\<rparr>"
proof (induction ds arbitrary: st)
  case Nil
  then show ?case by (simp add: hitCount_def)
next
  case (Cons d ds)
  let ?st = "existingLineStep hits d st"
  have "fold (existingLineStep hits) (d # ds) st = fold (existingLineStep hits) ds ?st"
    by (simp only: fold_simps comp_apply)
  also have "\<dots> = \<lparr>mhit = mhit ?st + hitCount (map (bumpHit hits) ds),
      mfound = mfound ?st + int (length ds),
      mseen = mseen ?st \<union> set (map line ds),
      mdetails = mdetails ?st @ map (bumpHit hits) ds\<rparr>"
    by (rule Cons.IH)
  also have "\<dots> = \<lparr>mhit = mhit st + hitCount (map (bumpHit hits) (d # ds)),
      mfound = mfound st + int (length (d # ds)),
      mseen = mseen st \<union> set (map line (d # ds)),
      mdetails = mdetails st @ map (bumpHit hits) (d # ds)\<rparr>"
    unfolding existingLineStep_apply by (simp add: hitCount_def)
  finally show ?case .
qed

lemma incomingLoop:
  "fold incomingLineStep ds st =
     \<lparr>mhit = mhit st + hitCount ds,
      mfound = mfound st + int (length ds),
      mseen = mseen st,
      mdetails = mdetails st @ ds\<rparr>"
proof (induction ds arbitrary: st)
  case Nil
  then show ?case by (simp add: hitCount_def)
next
  case (Cons d ds)
  let ?st = "incomingLineStep d st"
  have "fold incomingLineStep (d # ds) st = fold incomingLineStep ds ?st"
    by (simp only: fold_simps comp_apply)
  also have "\<dots> = \<lparr>mhit = mhit ?st + hitCount ds,
      mfound = mfound ?st + int (length ds),
      mseen = mseen ?st,
      mdetails = mdetails ?st @ ds\<rparr>"
    by (rule Cons.IH)
  also have "\<dots> = \<lparr>mhit = mhit st + hitCount (d # ds),
      mfound = mfound st + int (length (d # ds)),
      mseen = mseen st,
      mdetails = mdetails st @ d # ds\<rparr>"
    unfolding incomingLineStep_apply by (simp add: hitCount_def)
  finally show ?case .
qed

lemma mergeLineCoverage_eq:
  assumes "lines existing = Some el" and "lines incoming = Some cl"
  shows "mergeLineCoverage existing incoming =
     Inr \<lparr>ldetails = mergedDetails el cl,
          lhit = hitCount (mergedDetails el cl),
          lfound = int (length (mergedDetails el cl))\<rparr>"
  using assms
  by (simp add: mergeLineCoverage_def existingLoop incomingLoop mergedDetails_def
      incomingHits_def hitCount_append Let_def)

lemma card_lines_merged:
  assumes "distinct (map line es)" and "distinct (map line cs)"
  shows "card (set (map line es) \<union> set (map line cs)) =
         length es + length (filter (\<lambda>d. line d \<notin> set (map line es)) cs)"
proof -
  let ?A = "set (map line es)"
  let ?new = "filter (\<lambda>d. line d \<notin> ?A) cs"
  have un: "?A \<union> set (map line cs) = ?A \<union> set (map line ?new)" by auto
  have dj: "?A \<inter> set (map line ?new) = {}" by force
  have dn: "distinct (map line ?new)" using assms(2) by (rule distinct_map_filter)
  have "card (?A \<union> set (map line ?new)) = card ?A + card (set (map line ?new))"
    using dj by (simp add: card_Un_disjoint)
  also have "\<dots> = length (map line es) + length (map line ?new)"
    using assms(1) dn by (simp only: distinct_card)
  finally show ?thesis using un by simp
qed

subsection \<open>C4: the line merge increments by one\<close>

text \<open>
  C4. For every pair of sections (existing, incoming) that have line data, the line
  merge returns, and the first entries of the merged details are the details of
  \<open>existing\<close> in order, with the same line numbers: the hit counter of such an entry is
  the existing one plus exactly one if some line detail of \<open>incoming\<close> with that line
  number has \<^verbatim>\<open>hit > 0\<close>, whatever its magnitude, and the existing one unchanged
  otherwise (\<open>incoming\<close> reports the line with zero hits only, or not at all).
\<close>

theorem merge_increments_by_one:
  assumes "lines existing = Some el" and "lines incoming = Some il"
  shows "\<exists>m. mergeLineCoverage existing incoming = Inr m \<and>
           length (ldetails el) \<le> length (ldetails m) \<and>
           (\<forall>i < length (ldetails el).
              line (ldetails m ! i) = line (ldetails el ! i) \<and>
              hit (ldetails m ! i) =
                (if \<exists>d \<in> set (ldetails il). line d = line (ldetails el ! i) \<and> hit d > 0
                 then hit (ldetails el ! i) + 1
                 else hit (ldetails el ! i)))"
proof -
  let ?m = "\<lparr>ldetails = mergedDetails el il,
          lhit = hitCount (mergedDetails el il),
          lfound = int (length (mergedDetails el il))\<rparr>"
  have m: "mergeLineCoverage existing incoming = Inr ?m"
    using assms by (rule mergeLineCoverage_eq)
  have len: "length (ldetails el) \<le> length (ldetails ?m)"
    by (simp add: mergedDetails_def)
  have pt: "line (ldetails ?m ! i) = line (ldetails el ! i) \<and>
            hit (ldetails ?m ! i) =
              (if \<exists>d \<in> set (ldetails il). line d = line (ldetails el ! i) \<and> hit d > 0
               then hit (ldetails el ! i) + 1
               else hit (ldetails el ! i))" if "i < length (ldetails el)" for i
  proof -
    have nth: "ldetails ?m ! i = bumpHit (incomingHits il) (ldetails el ! i)"
      using that by (simp add: mergedDetails_def nth_append)
    have mem: "(line (ldetails el ! i) \<in> incomingHits il) =
               (\<exists>d \<in> set (ldetails il). line d = line (ldetails el ! i) \<and> hit d > 0)"
      unfolding incomingHits_def by (simp add: image_iff) metis
    show ?thesis
      unfolding nth using mem by (simp add: bumpHit_def)
  qed
  show ?thesis using m len pt by blast
qed

theorem merge_increments_by_one_witness:
  "lines mergeA \<noteq> None \<and> lines mergeB \<noteq> None \<and>
   (\<exists>m. mergeLineCoverage mergeA mergeB = Inr m \<and>
      hit (ldetails m ! 0) = 4 \<and> hit (ldetails m ! 1) = 2 \<and> hit (ldetails m ! 2) = 0)"
proof -
  let ?el = "\<lparr>ldetails = [\<lparr>line = 5, hit = 3\<rparr>, \<lparr>line = 6, hit = 2\<rparr>, \<lparr>line = 7, hit = 0\<rparr>],
              lhit = 2, lfound = 3\<rparr>"
  let ?il = "\<lparr>ldetails = [\<lparr>line = 5, hit = 7\<rparr>, \<lparr>line = 6, hit = 0\<rparr>, \<lparr>line = 8, hit = 1\<rparr>],
              lhit = 2, lfound = 3\<rparr>"
  have a: "lines mergeA = Some ?el" by (simp add: mergeA_def)
  have b: "lines mergeB = Some ?il" by (simp add: mergeB_def)
  obtain m where m: "mergeLineCoverage mergeA mergeB = Inr m"
    and pt: "\<forall>i < length (ldetails ?el).
              line (ldetails m ! i) = line (ldetails ?el ! i) \<and>
              hit (ldetails m ! i) =
                (if \<exists>d \<in> set (ldetails ?il). line d = line (ldetails ?el ! i) \<and> hit d > 0
                 then hit (ldetails ?el ! i) + 1
                 else hit (ldetails ?el ! i))"
    using merge_increments_by_one [OF a b] by blast
  have "hit (ldetails m ! 0) = 4" using pt [rule_format, of 0] by simp
  moreover have "hit (ldetails m ! 1) = 2" using pt [rule_format, of 1] by simp
  moreover have "hit (ldetails m ! 2) = 0" using pt [rule_format, of 2] by simp
  ultimately show ?thesis using a b m by auto
qed

subsection \<open>C5: found and hit of the merged lines\<close>

text \<open>
  C5, as amended. For every pair of sections (existing, incoming) that have line data,
  the line merge returns; the merged \<open>found\<close> is the number of merged line details and
  the merged \<open>hit\<close> is the number of merged line details with a positive hit counter.
  When neither input repeats a line number within its own details, the merged \<open>found\<close>
  is the number of distinct line numbers across both inputs. The result does not depend
  on the \<open>found\<close> and \<open>hit\<close> fields of the inputs.
\<close>

theorem merge_found_hit:
  assumes "lines existing = Some el" and "lines incoming = Some il"
  shows "\<exists>m. mergeLineCoverage existing incoming = Inr m \<and>
           lfound m = int (length (ldetails m)) \<and>
           lhit m = int (length (filter (\<lambda>d. hit d > 0) (ldetails m))) \<and>
           (distinct (map line (ldetails el)) \<and> distinct (map line (ldetails il)) \<longrightarrow>
              lfound m =
                int (card (set (map line (ldetails el)) \<union> set (map line (ldetails il))))) \<and>
           mergeLineCoverage
             (existing\<lparr>lines := Some (el\<lparr>lhit := h1, lfound := f1\<rparr>)\<rparr>)
             (incoming\<lparr>lines := Some (il\<lparr>lhit := h2, lfound := f2\<rparr>)\<rparr>) = Inr m"
proof -
  let ?m = "\<lparr>ldetails = mergedDetails el il,
          lhit = hitCount (mergedDetails el il),
          lfound = int (length (mergedDetails el il))\<rparr>"
  have m: "mergeLineCoverage existing incoming = Inr ?m"
    using assms by (rule mergeLineCoverage_eq)
  have d: "lfound ?m =
        int (card (set (map line (ldetails el)) \<union> set (map line (ldetails il))))"
    if "distinct (map line (ldetails el)) \<and> distinct (map line (ldetails il))"
    using that card_lines_merged [of "ldetails el" "ldetails il"]
    by (simp add: mergedDetails_def)
  have "mergeLineCoverage
             (existing\<lparr>lines := Some (el\<lparr>lhit := h1, lfound := f1\<rparr>)\<rparr>)
             (incoming\<lparr>lines := Some (il\<lparr>lhit := h2, lfound := f2\<rparr>)\<rparr>) =
        Inr \<lparr>ldetails = mergedDetails (el\<lparr>lhit := h1, lfound := f1\<rparr>) (il\<lparr>lhit := h2, lfound := f2\<rparr>),
          lhit = hitCount (mergedDetails (el\<lparr>lhit := h1, lfound := f1\<rparr>) (il\<lparr>lhit := h2, lfound := f2\<rparr>)),
          lfound = int (length (mergedDetails (el\<lparr>lhit := h1, lfound := f1\<rparr>) (il\<lparr>lhit := h2, lfound := f2\<rparr>)))\<rparr>"
    by (rule mergeLineCoverage_eq) simp_all
  then have i: "mergeLineCoverage
             (existing\<lparr>lines := Some (el\<lparr>lhit := h1, lfound := f1\<rparr>)\<rparr>)
             (incoming\<lparr>lines := Some (il\<lparr>lhit := h2, lfound := f2\<rparr>)\<rparr>) = Inr ?m"
    by (simp add: mergedDetails_def incomingHits_def)
  have "lfound ?m = int (length (ldetails ?m))" by simp
  moreover have "lhit ?m = int (length (filter (\<lambda>d. hit d > 0) (ldetails ?m)))"
    by (simp add: hitCount_def)
  ultimately show ?thesis using m d i by blast
qed

theorem merge_found_hit_witness:
  "lines mergeA \<noteq> None \<and> lines mergeB \<noteq> None \<and>
   (\<exists>m. mergeLineCoverage mergeA mergeB = Inr m \<and> lfound m = 4 \<and> lhit m = 3)"
proof -
  let ?el = "\<lparr>ldetails = [\<lparr>line = 5, hit = 3\<rparr>, \<lparr>line = 6, hit = 2\<rparr>, \<lparr>line = 7, hit = 0\<rparr>],
              lhit = 2, lfound = 3\<rparr>"
  let ?il = "\<lparr>ldetails = [\<lparr>line = 5, hit = 7\<rparr>, \<lparr>line = 6, hit = 0\<rparr>, \<lparr>line = 8, hit = 1\<rparr>],
              lhit = 2, lfound = 3\<rparr>"
  have a: "lines mergeA = Some ?el" by (simp add: mergeA_def)
  have b: "lines mergeB = Some ?il" by (simp add: mergeB_def)
  have d: "distinct (map line (ldetails ?el)) \<and> distinct (map line (ldetails ?il))" by simp
  have c: "card (set (map line (ldetails ?el)) \<union> set (map line (ldetails ?il))) = 4"
    by (simp add: card_insert_if)
  obtain m where m: "mergeLineCoverage mergeA mergeB = Inr m"
    and f: "lfound m =
              int (card (set (map line (ldetails ?el)) \<union> set (map line (ldetails ?il))))"
    and h: "lhit m = int (length (filter (\<lambda>d. hit d > 0) (ldetails m)))"
    using merge_found_hit [OF a b, of 0 0 0 0] d by blast
  have "lfound m = 4" using f c by simp
  moreover have "lhit m = 3"
    using h m by (auto simp add: mergeLineCoverage_eq [OF a b] mergedDetails_def
        incomingHits_def bumpHit_def)
  ultimately show ?thesis using a b m by auto
qed

text \<open>
  Counterexample to C5 as stated: the existing section lists line 5 twice and the
  incoming one lists nothing. The merged \<open>found\<close> is 2, the number of distinct line
  numbers across both inputs is 1.
\<close>

theorem merge_found_hit_counterexample:
  "mergeLineCoverage mergeDup mergeNoLines =
     Inr \<lparr>ldetails = [\<lparr>line = 5, hit = 1\<rparr>, \<lparr>line = 5, hit = 0\<rparr>], lhit = 1, lfound = 2\<rparr> \<and>
   card (set (map line [\<lparr>line = 5, hit = 1\<rparr>, \<lparr>line = 5, hit = 0\<rparr>]) \<union> set (map line [])) = 1"
  by (simp add: mergeLineCoverage_def existingLineStep_def incomingLineStep_def
      mergeDup_def mergeNoLines_def Let_def card_insert_if)

subsection \<open>C6: the branch merge when one side has no branch data\<close>

text \<open>
  C6. For every pair of sections (existing, incoming): if \<open>incoming\<close> has no branch
  data, the branch merge returns the branch data of \<open>existing\<close> unchanged; if
  \<open>existing\<close> has no branch data, it returns the branch data of \<open>incoming\<close> as it is.
  Whenever \<^verbatim>\<open>mergeSections\<close> returns a section, its branch data is the result of the
  branch merge.
\<close>

theorem merge_branches_absent:
  "(branches incoming = None \<longrightarrow>
      mergeBranchCoverage existing incoming = branches existing) \<and>
   (branches existing = None \<longrightarrow>
      mergeBranchCoverage existing incoming = branches incoming) \<and>
   (mergeSections existing incoming = Inr merged \<longrightarrow>
      branches merged = mergeBranchCoverage existing incoming)"
  by (auto simp add: mergeBranchCoverage_def mergeSections_def split: option.splits sum.splits)

theorem merge_branches_absent_witness:
  "branches mergeB = None \<and>
   mergeBranchCoverage mergeA mergeB = branches mergeA \<and>
   mergeBranchCoverage mergeB mergeA = branches mergeA \<and>
   branches mergeA \<noteq> None \<and>
   (\<exists>m. mergeSections mergeA mergeB = Inr m \<and> branches m = branches mergeA)"
proof -
  have b: "branches mergeB = None" by (simp add: mergeB_def)
  have a: "branches mergeA \<noteq> None" by (simp add: mergeA_def)
  obtain m where m: "mergeSections mergeA mergeB = Inr m"
    by (simp add: mergeSections_def mergeLineCoverage_def mergeA_def mergeB_def Let_def)
  have 1: "mergeBranchCoverage mergeA mergeB = branches mergeA"
    using merge_branches_absent [of mergeB mergeA m] b by simp
  have 2: "mergeBranchCoverage mergeB mergeA = branches mergeA"
    using merge_branches_absent [of mergeA mergeB m] b by simp
  have 3: "branches m = branches mergeA"
    using merge_branches_absent [of mergeB mergeA m] m 1 by simp
  show ?thesis using a b m 1 2 3 by blast
qed

subsection \<open>C7: the merge keeps title and file\<close>

text \<open>
  C7. For every pair of sections (existing, incoming) that have line data, and so in
  particular for every such pair with the same merge key, \<^verbatim>\<open>mergeSections\<close> returns
  a section with the title, the file and therefore the key of \<open>existing\<close>; it is
  \<open>existing\<close> with only the fields \<open>lines\<close> and \<open>branches\<close> replaced.
\<close>

theorem merge_keeps_identity:
  assumes "lines existing = Some el" and "lines incoming = Some il"
  shows "\<exists>m l. mergeSections existing incoming = Inr m \<and>
           title m = title existing \<and> sfile m = sfile existing \<and>
           sectionKey m = sectionKey existing \<and>
           m = existing\<lparr>lines := Some l, branches := branches m\<rparr>"
proof -
  obtain l where l: "mergeLineCoverage existing incoming = Inr l"
    using mergeLineCoverage_eq [OF assms] by blast
  let ?m = "existing\<lparr>lines := Some l, branches := mergeBranchCoverage existing incoming\<rparr>"
  have "mergeSections existing incoming = Inr ?m"
    using l by (simp add: mergeSections_def)
  moreover have "title ?m = title existing" "sfile ?m = sfile existing"
    "sectionKey ?m = sectionKey existing"
    by (simp_all add: sectionKey_def)
  moreover have "?m = existing\<lparr>lines := Some l, branches := branches ?m\<rparr>" by simp
  ultimately show ?thesis by blast
qed

theorem merge_keeps_identity_witness:
  "lines mergeA \<noteq> None \<and> lines mergeB \<noteq> None \<and> sectionKey mergeA = sectionKey mergeB \<and>
   (\<exists>m. mergeSections mergeA mergeB = Inr m \<and> title m = ''t'' \<and> sfile m = ''a.ts'' \<and>
      sectionKey m = ''t::a.ts'')"
proof -
  obtain el where a: "lines mergeA = Some el" by (simp add: mergeA_def)
  obtain il where b: "lines mergeB = Some il" by (simp add: mergeB_def)
  have k: "sectionKey mergeA = sectionKey mergeB"
    by (simp add: sectionKey_def mergeA_def mergeB_def)
  obtain m where m: "mergeSections mergeA mergeB = Inr m"
    and t: "title m = title mergeA" and f: "sfile m = sfile mergeA"
    and s: "sectionKey m = sectionKey mergeA"
    using merge_keeps_identity [OF a b] by blast
  have "title m = ''t''" using t by (simp add: mergeA_def)
  moreover have "sfile m = ''a.ts''" using f by (simp add: mergeA_def)
  moreover have "sectionKey m = ''t::a.ts''" using s by (simp add: sectionKey_def mergeA_def)
  ultimately show ?thesis using a b k m by auto
qed

section \<open>Aggregation: a file whose parse fails\<close>

lemma flatten_fold: "fold (\<lambda>val acc. acc @ val) results acc0 = acc0 @ concat results"
  by (induction results arbitrary: acc0) simp_all

lemma promiseAll_skip_empty:
  "map_promise concat (promiseAll (xs @ Fulfilled [] # ys)) =
   map_promise concat (promiseAll (xs @ ys))"
proof (induction xs)
  case Nil
  show ?case by (cases "promiseAll ys") simp_all
next
  case (Cons x xs)
  show ?case
  proof (cases x)
    case (Fulfilled v)
    show ?thesis
      using Cons.IH Fulfilled
      by (cases "promiseAll (xs @ Fulfilled [] # ys)"; cases "promiseAll (xs @ ys)") simp_all
  next
    case (Rejected e)
    then show ?thesis by simp
  next
    case Pending
    show ?thesis
      using Cons.IH Pending
      by (cases "promiseAll (xs @ Fulfilled [] # ys)"; cases "promiseAll (xs @ ys)") simp_all
  qed
qed

lemma promiseAll_pending:
  "Pending \<in> set ps \<Longrightarrow> promiseAll ps = Pending \<or> (\<exists>e. promiseAll ps = Rejected e)"
proof (induction ps)
  case Nil
  then show ?case by simp
next
  case (Cons p ps)
  show ?case
  proof (cases "p = Pending")
    case True
    then show ?thesis by (cases "promiseAll ps") simp_all
  next
    case False
    then have "promiseAll ps = Pending \<or> (\<exists>e. promiseAll ps = Rejected e)"
      using Cons by simp
    then show ?thesis by (cases p) auto
  qed
qed

lemma filesToSections_flat:
  "filesToSections env files =
     (case map_promise concat (promiseAll (concat (map (parsePromisesOf env) files))) of
        Pending \<Rightarrow> Pending
      | Rejected e \<Rightarrow> Rejected e
      | Fulfilled flat \<Rightarrow>
          (case addSections Map.empty flat of
             Inl e \<Rightarrow> Rejected e
           | Inr coverages \<Rightarrow> Fulfilled coverages))"
  by (cases "promiseAll (concat (map (parsePromisesOf env) files))")
     (simp_all add: filesToSections_def flatten_fold)

text \<open>
  What the extractors get right: when the parser reports an \<^verbatim>\<open>Error\<close> object, the
  file's promise is fulfilled with the empty array, and the aggregation gives what the
  other files alone give.
\<close>

lemma error_object_no_sections:
  "parseError env fileContent = Some (ErrorObject msg) \<Longrightarrow>
   parsePromisesOf env (fileName, fileContent) = [Fulfilled []]"
  by (auto simp add: parseError_def parsePromisesOf_def xmlExtractClover_def
      xmlExtractJacoco_def xmlExtractCobertura_def lcovExtract_def checkError_def
      truthy_def isObject_def
      split: CoverageType.splits promise_outcome.splits callback_outcome.splits if_splits)

lemma error_object_contributes_nothing:
  assumes "parseError env fileContent = Some (ErrorObject msg)"
  shows "filesToSections env (pre @ (fileName, fileContent) # post) =
           filesToSections env (pre @ post)"
proof -
  let ?before = "concat (map (parsePromisesOf env) pre)"
  let ?after = "concat (map (parsePromisesOf env) post)"
  have "concat (map (parsePromisesOf env) (pre @ (fileName, fileContent) # post)) =
        ?before @ Fulfilled [] # ?after"
    using error_object_no_sections [OF assms, of fileName] by simp
  moreover have "concat (map (parsePromisesOf env) (pre @ post)) = ?before @ ?after"
    by simp
  ultimately show ?thesis
    by (simp only: filesToSections_flat promiseAll_skip_empty)
qed

text \<open>
  What they miss: a callback parser that reports a non-empty string leaves the file's
  promise unsettled, and then \<^verbatim>\<open>filesToSections\<close> is never fulfilled, whatever the
  other files are.
\<close>

lemma string_error_pending:
  assumes "coverageFileType env fileContent = LCOV"
    and "source env fileContent = CallsBack (JsString str) data" and "str \<noteq> []"
  shows "parsePromisesOf env (fileName, fileContent) = [Pending]"
  using assms
  by (simp add: parsePromisesOf_def lcovExtract_def checkError_def truthy_def isObject_def)

lemma string_error_never_fulfilled:
  assumes "coverageFileType env fileContent = LCOV"
    and "source env fileContent = CallsBack (JsString str) data" and "str \<noteq> []"
    and "(fileName, fileContent) \<in> set files"
  shows "filesToSections env files = Pending \<or> (\<exists>e. filesToSections env files = Rejected e)"
proof -
  let ?ps = "concat (map (parsePromisesOf env) files)"
  have "Pending \<in> set (parsePromisesOf env (fileName, fileContent))"
    using string_error_pending [OF assms(1-3), of fileName] by simp
  then have "Pending \<in> set ?ps" using assms(4) by auto
  then have "promiseAll ?ps = Pending \<or> (\<exists>e. promiseAll ?ps = Rejected e)"
    by (rule promiseAll_pending)
  then show ?thesis by (auto simp add: filesToSections_def)
qed

lemma mergeSections_AB: "mergeSections mergeA mergeB = Inr mergedAB"
  by (simp add: mergeSections_def mergeLineCoverage_def mergeBranchCoverage_def
      existingLineStep_def incomingLineStep_def mergeA_def mergeB_def mergedAB_def Let_def)

lemma sectionKey_AB: "sectionKey mergeA = ''t::a.ts''" "sectionKey mergeB = ''t::a.ts''"
  by (simp_all add: sectionKey_def mergeA_def mergeB_def)

lemma addSections_AB:
  "addSections Map.empty [mergeA, mergeB] = Inr [''t::a.ts'' \<mapsto> mergedAB]"
  by (simp add: addSections_def addSectionsStep_def addToSectionsMap_def sectionKey_AB
      mergeSections_AB Let_def)

text \<open>
  A run with one failing file of each XML format, each reporting an \<^verbatim>\<open>Error\<close>,
  between an LCOV file and a Clover file that parse: the map holds the merge of the two
  parsed sections under their common key.
\<close>

lemma files_with_error_objects:
  "filesToSections exCollaborators
     [(''a.info'', ''A''), (''c.xml'', ''<clover!>''), (''j.xml'', ''<jacoco!>''),
      (''k.xml'', ''<cobertura!>''), (''b.xml'', ''<clover>'')] =
     Fulfilled [''t::a.ts'' \<mapsto> mergedAB]"
  by (simp add: filesToSections_def parsePromisesOf_def exCollaborators_def lcovExtract_def
      xmlExtractClover_def xmlExtractJacoco_def xmlExtractCobertura_def checkError_def
      truthy_def isObject_def addSections_AB Let_def)

subsection \<open>C9: a failed parse contributes nothing and stops nothing\<close>

text \<open>
  C9 says that a file whose parse fails contributes no section and that the sections
  of the other files are still merged into the map. The code does not do so for a
  file of the LCOV format that does not parse: \<^verbatim>\<open>lcov-parse\<close> calls back with a
  string, the assignment to \<^verbatim>\<open>err.message\<close> in \<^verbatim>\<open>checkError\<close> throws inside the
  \<^verbatim>\<open>async\<close> callback, and the promise of \<^verbatim>\<open>lcovExtract\<close> never settles. With the file
  \<open>x.info\<close> between two files that parse, \<^verbatim>\<open>filesToSections\<close> never settles; without
  it, the two parsed sections are merged.
\<close>

theorem unparsable_lcov_never_settles:
  "parseError exCollaborators ''garbage'' = Some (JsString ''Failed to parse string'') \<and>
   filesToSections exCollaborators
     [(''a.info'', ''A''), (''x.info'', ''garbage''), (''b.xml'', ''<clover>'')] = Pending \<and>
   filesToSections exCollaborators [(''a.info'', ''A''), (''b.xml'', ''<clover>'')] =
     Fulfilled [''t::a.ts'' \<mapsto> mergedAB]"
  by (simp add: filesToSections_def parsePromisesOf_def exCollaborators_def lcovExtract_def
      xmlExtractClover_def checkError_def truthy_def isObject_def parseError_def
      addSections_AB Let_def)

end
